theory Spec2Isabelle
  imports Main "HOL-Library.Word"
begin

section \<open>Data model of package request\<close>

text \<open>
  The package \<^verbatim>\<open>request\<close> (file \<^verbatim>\<open>pkg/request/request.go\<close>) streams HTTP bodies under a
  per-chunk timeout. Its functions work on three kinds of foreign objects: an
  \<^verbatim>\<open>io.Reader\<close>, an \<^verbatim>\<open>io.Writer\<close> and a \<^verbatim>\<open>*time.Timer\<close>. They are modelled as follows.

  \<^item> An error value is an element of \<open>error\<close>; Go's \<^verbatim>\<open>nil\<close> error is \<open>None\<close> of
    \<open>error option\<close>.
  \<^item> A call of foreign code either returns or panics: \<open>'a outcome\<close>.
  \<^item> A reader is a state machine: from its state and the length of the buffer it is
    handed, \<^verbatim>\<open>Read\<close> gives the pair \<^verbatim>\<open>(n, err)\<close> (or a panic) and the next state. A writer
    likewise, from the number of bytes it is offered. No branch of the package looks at
    the payload bytes, so chunks are represented by their lengths.
  \<^item> Go's \<^verbatim>\<open>int\<close> results \<^verbatim>\<open>nr\<close> and \<^verbatim>\<open>nw\<close> are \<open>int\<close>; the \<^verbatim>\<open>int64\<close> counter
    \<^verbatim>\<open>written\<close> is a \<open>64 word\<close>, read with \<open>sint\<close>, and its addition wraps.
  \<^item> The calls made on the timer, the source and the sink are recorded, in order, in
    a list of events; \<open>AfterFunc\<close> is the creation of the timer by \<^verbatim>\<open>time.AfterFunc\<close>,
    \<open>BodyClose\<close> and \<open>CtxCancel\<close> are the deferred calls of \<^verbatim>\<open>DoRequest\<close>.
\<close>

datatype num_err = ErrSyntax | ErrRange

datatype error =
    EOF
  | ErrShortWrite
  | ErrUnexpectedEOF
  | ErrorCopyTimeout
  | NumError string string num_err
  | OtherError string

type_synonym panic_value = string

datatype 'a outcome = Return 'a | Panic panic_value

type_synonym duration = int

type_synonym io_result = "int \<times> error option"

type_synonym 's Reader = "'s \<Rightarrow> nat \<Rightarrow> io_result outcome \<times> 's"

type_synonym 's Writer = "'s \<Rightarrow> nat \<Rightarrow> io_result outcome \<times> 's"

datatype event =
    AfterFunc duration
  | TimerStop
  | TimerReset duration
  | SrcRead nat
  | DstWrite nat
  | BodyClose
  | CtxCancel

record ('r, 'w) world =
  src :: 'r
  dst :: 'w
  trace :: "event list"

definition chunkSize :: nat where
  "chunkSize = 2 ^ 16"

definition emit :: "event \<Rightarrow> ('r, 'w) world \<Rightarrow> ('r, 'w) world" where
  "emit e \<sigma> = \<sigma>\<lparr>trace := trace \<sigma> @ [e]\<rparr>"

definition emit_if :: "bool \<Rightarrow> event \<Rightarrow> ('r, 'w) world \<Rightarrow> ('r, 'w) world" where
  "emit_if b e \<sigma> = (if b then emit e \<sigma> else \<sigma>)"

definition src_Read :: "'r Reader \<Rightarrow> nat \<Rightarrow> ('r, 'w) world \<Rightarrow> io_result outcome \<times> ('r, 'w) world" where
  "src_Read rd n \<sigma> =
     (case rd (src \<sigma>) n of (res, r') \<Rightarrow> (res, emit (SrcRead n) (\<sigma>\<lparr>src := r'\<rparr>)))"

definition dst_Write :: "'w Writer \<Rightarrow> nat \<Rightarrow> ('r, 'w) world \<Rightarrow> io_result outcome \<times> ('r, 'w) world" where
  "dst_Write wr n \<sigma> =
     (case wr (dst \<sigma>) n of (res, w') \<Rightarrow> (res, emit (DstWrite n) (\<sigma>\<lparr>dst := w'\<rparr>)))"

section \<open>internalTimeoutCopy\<close>

text \<open>
  One pass through the body of the \<^verbatim>\<open>for\<close> loop of \<^verbatim>\<open>internalTimeoutCopy\<close>. The pass
  ends in \<open>Continue\<close> (next iteration, with the counter so far), in \<open>Break\<close> (the loop is
  left and \<^verbatim>\<open>(written, err)\<close> returned) or in \<open>Raise\<close> (a panic leaves the function).
  \<open>write_chunk\<close> is the block guarded by \<^verbatim>\<open>nr > 0\<close>; its \<open>Continue\<close> is where control
  falls through to the test of \<^verbatim>\<open>er\<close>. The slice expression \<^verbatim>\<open>readBuf[0:nr]\<close> panics
  when \<^verbatim>\<open>nr\<close> exceeds the capacity \<^verbatim>\<open>chunkSize\<close> of the buffer.
\<close>

datatype step = Continue "64 word" | Break "64 word" "error option" | Raise panic_value

definition write_chunk ::
  "'w Writer \<Rightarrow> duration \<Rightarrow> bool \<Rightarrow> int \<Rightarrow> 64 word \<Rightarrow> ('r, 'w) world \<Rightarrow>
     step \<times> ('r, 'w) world" where
  "write_chunk wr timeout writeTimeout nr written \<sigma>0 =
     (let \<sigma>1 = emit_if writeTimeout (TimerReset timeout) \<sigma>0 in
      if nr > int chunkSize then (Raise ''slice bounds out of range'', \<sigma>1)
      else
        (case dst_Write wr (nat nr) \<sigma>1 of
           (Panic p, \<sigma>2) \<Rightarrow> (Raise p, \<sigma>2)
         | (Return (nw, ew), \<sigma>2) \<Rightarrow>
             (let \<sigma>3 = emit_if writeTimeout TimerStop \<sigma>2;
                  written' = (if nw > 0 then written + word_of_int nw else written) in
              if ew \<noteq> None then (Break written' ew, \<sigma>3)
              else if nr \<noteq> nw then (Break written' (Some ErrShortWrite), \<sigma>3)
              else (Continue written', \<sigma>3))))"

definition copy_iteration ::
  "'w Writer \<Rightarrow> 'r Reader \<Rightarrow> duration \<Rightarrow> bool \<Rightarrow> 64 word \<Rightarrow> ('r, 'w) world \<Rightarrow>
     step \<times> ('r, 'w) world" where
  "copy_iteration wr rd timeout writeTimeout written \<sigma>0 =
     (let \<sigma>1 = emit_if (\<not> writeTimeout) (TimerReset timeout) \<sigma>0 in
      case src_Read rd chunkSize \<sigma>1 of
        (Panic p, \<sigma>2) \<Rightarrow> (Raise p, \<sigma>2)
      | (Return (nr, er), \<sigma>2) \<Rightarrow>
          (let \<sigma>3 = emit_if (\<not> writeTimeout) TimerStop \<sigma>2 in
           case (if nr > 0 then write_chunk wr timeout writeTimeout nr written \<sigma>3
                 else (Continue written, \<sigma>3)) of
             (Continue written', \<sigma>4) \<Rightarrow>
               (if er \<noteq> None then
                  (if er \<noteq> Some EOF then (Break written' er, \<sigma>4)
                   else (Break written' None, \<sigma>4))
                else (Continue written', \<sigma>4))
           | (stop, \<sigma>4) \<Rightarrow> (stop, \<sigma>4)))"

text \<open>
  The loop itself. It has no bound of its own (a source that keeps returning
  \<^verbatim>\<open>(0, nil)\<close> keeps it running), so it is a partial function: \<open>None\<close> is the run that
  never returns.
\<close>

partial_function (option) copy_loop ::
  "'w Writer \<Rightarrow> 'r Reader \<Rightarrow> duration \<Rightarrow> bool \<Rightarrow> 64 word \<Rightarrow> ('r, 'w) world \<Rightarrow>
     ((64 word \<times> error option) outcome \<times> ('r, 'w) world) option" where
  "copy_loop wr rd timeout writeTimeout written \<sigma> =
     (case copy_iteration wr rd timeout writeTimeout written \<sigma> of
        (Continue written', \<sigma>') \<Rightarrow> copy_loop wr rd timeout writeTimeout written' \<sigma>'
      | (Break written' err, \<sigma>') \<Rightarrow> Some (Return (written', err), \<sigma>')
      | (Raise p, \<sigma>') \<Rightarrow> Some (Panic p, \<sigma>'))"

definition internalTimeoutCopy ::
  "'w Writer \<Rightarrow> 'r Reader \<Rightarrow> duration \<Rightarrow> bool \<Rightarrow> ('r, 'w) world \<Rightarrow>
     ((64 word \<times> error option) outcome \<times> ('r, 'w) world) option" where
  "internalTimeoutCopy wr rd timeout writeTimeout \<sigma> = copy_loop wr rd timeout writeTimeout 0 \<sigma>"

declare copy_loop.simps [code]

section \<open>timeoutReader\<close>

text \<open>
  \<^verbatim>\<open>timeoutReader.Read\<close>: the three statements of the method, on the reader \<^verbatim>\<open>tr.reader\<close>
  and the duration \<^verbatim>\<open>tr.timeout\<close>. A panic of the wrapped reader leaves the method before
  the timer is reset.
\<close>

definition timeoutReader_Read ::
  "'r Reader \<Rightarrow> duration \<Rightarrow> nat \<Rightarrow> ('r, 'w) world \<Rightarrow> io_result outcome \<times> ('r, 'w) world" where
  "timeoutReader_Read reader timeout p \<sigma>0 =
     (let \<sigma>1 = emit TimerStop \<sigma>0 in
      case src_Read reader p \<sigma>1 of
        (Panic pv, \<sigma>2) \<Rightarrow> (Panic pv, \<sigma>2)
      | (Return (nRead, err), \<sigma>2) \<Rightarrow> (Return (nRead, err), emit (TimerReset timeout) \<sigma>2))"

section \<open>TimeoutCopy\<close>

text \<open>
  \<^verbatim>\<open>TimeoutCopy\<close> starts a goroutine that runs \<^verbatim>\<open>internalTimeoutCopy\<close> and then offers its
  result on \<^verbatim>\<open>copyResultChan\<close> (or, after a panic, the recovered value on \<^verbatim>\<open>panicChan\<close>);
  the caller waits in a \<^verbatim>\<open>select\<close> on \<^verbatim>\<open>panicChan\<close>, \<^verbatim>\<open>copyResultChan\<close> and \<^verbatim>\<open>timer.C\<close>.
  The interleaving is made explicit: a state holds where the goroutine is, whether a
  value is pending on \<^verbatim>\<open>timer.C\<close> and where the caller is, and a schedule is a list of
  actions. The goroutine advances by one loop iteration per \<open>WorkerStep\<close>; the three
  \<open>Recv\<close> actions are the three cases of the caller's \<^verbatim>\<open>select\<close>, each enabled only when
  its channel is ready. The timer is armed only inside the loop (or left armed by a
  panic), so \<open>TimerFires\<close> is enabled in these two places; the model does not decide
  when it fires. After the caller has left, \<^verbatim>\<open>doneChan\<close> is closed and a goroutine
  blocked on a send exits.
\<close>

datatype ('r, 'w) worker =
    Copying "64 word" "('r, 'w) world"
  | SendResult "64 word" "error option"
  | SendPanic panic_value
  | Exited

datatype caller = Selecting | Returned "64 word" "error option" | Panicked panic_value

datatype action = WorkerStep | TimerFires | RecvPanic | RecvResult | RecvTimer

record ('r, 'w) race =
  worker :: "('r, 'w) worker"
  timerC :: bool
  caller :: caller

definition TimeoutCopy_init :: "('r, 'w) world \<Rightarrow> ('r, 'w) race" where
  "TimeoutCopy_init \<sigma> = \<lparr>worker = Copying 0 \<sigma>, timerC = False, caller = Selecting\<rparr>"

fun worker_step ::
  "'w Writer \<Rightarrow> 'r Reader \<Rightarrow> duration \<Rightarrow> bool \<Rightarrow> bool \<Rightarrow> ('r, 'w) worker \<Rightarrow> ('r, 'w) worker option" where
  "worker_step wr rd timeout writeTimeout doneClosed (Copying written \<sigma>) =
     (case copy_iteration wr rd timeout writeTimeout written \<sigma> of
        (Continue written', \<sigma>') \<Rightarrow> Some (Copying written' \<sigma>')
      | (Break written' err, \<sigma>') \<Rightarrow> Some (SendResult written' err)
      | (Raise p, \<sigma>') \<Rightarrow> Some (SendPanic p))"
| "worker_step wr rd timeout writeTimeout doneClosed (SendResult written err) =
     (if doneClosed then Some Exited else None)"
| "worker_step wr rd timeout writeTimeout doneClosed (SendPanic p) =
     (if doneClosed then Some Exited else None)"
| "worker_step wr rd timeout writeTimeout doneClosed Exited = None"

fun timer_may_fire :: "('r, 'w) worker \<Rightarrow> bool" where
  "timer_may_fire (Copying written \<sigma>) = True"
| "timer_may_fire (SendPanic p) = True"
| "timer_may_fire (SendResult written err) = False"
| "timer_may_fire Exited = False"

fun TimeoutCopy_step ::
  "'w Writer \<Rightarrow> 'r Reader \<Rightarrow> duration \<Rightarrow> bool \<Rightarrow> action \<Rightarrow> ('r, 'w) race \<Rightarrow> ('r, 'w) race option" where
  "TimeoutCopy_step wr rd timeout writeTimeout WorkerStep s =
     (case worker_step wr rd timeout writeTimeout (caller s \<noteq> Selecting) (worker s) of
        None \<Rightarrow> None
      | Some w' \<Rightarrow> Some (s\<lparr>worker := w'\<rparr>))"
| "TimeoutCopy_step wr rd timeout writeTimeout TimerFires s =
     (if timer_may_fire (worker s) then Some (s\<lparr>timerC := True\<rparr>) else None)"
| "TimeoutCopy_step wr rd timeout writeTimeout RecvPanic s =
     (case (caller s, worker s) of
        (Selecting, SendPanic p) \<Rightarrow> Some (s\<lparr>worker := Exited, caller := Panicked p\<rparr>)
      | _ \<Rightarrow> None)"
| "TimeoutCopy_step wr rd timeout writeTimeout RecvResult s =
     (case (caller s, worker s) of
        (Selecting, SendResult written err) \<Rightarrow> Some (s\<lparr>worker := Exited, caller := Returned written err\<rparr>)
      | _ \<Rightarrow> None)"
| "TimeoutCopy_step wr rd timeout writeTimeout RecvTimer s =
     (if caller s = Selecting \<and> timerC s
      then Some (s\<lparr>timerC := False, caller := Returned 0 (Some ErrorCopyTimeout)\<rparr>)
      else None)"

fun TimeoutCopy_run ::
  "'w Writer \<Rightarrow> 'r Reader \<Rightarrow> duration \<Rightarrow> bool \<Rightarrow> action list \<Rightarrow> ('r, 'w) race \<Rightarrow> ('r, 'w) race option" where
  "TimeoutCopy_run wr rd timeout writeTimeout [] s = Some s"
| "TimeoutCopy_run wr rd timeout writeTimeout (a # as) s =
     (case TimeoutCopy_step wr rd timeout writeTimeout a s of
        None \<Rightarrow> None
      | Some s' \<Rightarrow> TimeoutCopy_run wr rd timeout writeTimeout as s')"

definition TimeoutCopy ::
  "'w Writer \<Rightarrow> 'r Reader \<Rightarrow> duration \<Rightarrow> bool \<Rightarrow> action list \<Rightarrow> ('r, 'w) world \<Rightarrow> caller option" where
  "TimeoutCopy wr rd timeout writeTimeout schedule \<sigma> =
     map_option caller (TimeoutCopy_run wr rd timeout writeTimeout schedule (TimeoutCopy_init \<sigma>))"

text \<open>
  What a state of the race has to do with the result \<open>R\<close> of \<^verbatim>\<open>internalTimeoutCopy\<close> on the
  same source and sink: a goroutine inside the loop is on its way to \<open>R\<close>, what it offers
  on a channel is \<open>R\<close>, and what the caller has returned is \<open>R\<close> or the timeout.
\<close>

type_synonym ('r, 'w) copy_result = "((64 word \<times> error option) outcome \<times> ('r, 'w) world) option"

fun worker_agrees ::
  "'w Writer \<Rightarrow> 'r Reader \<Rightarrow> duration \<Rightarrow> bool \<Rightarrow> ('r, 'w) copy_result \<Rightarrow> ('r, 'w) worker \<Rightarrow> bool" where
  "worker_agrees wr rd d wt R (Copying written \<sigma>) = (copy_loop wr rd d wt written \<sigma> = R)"
| "worker_agrees wr rd d wt R (SendResult written err) = (map_option fst R = Some (Return (written, err)))"
| "worker_agrees wr rd d wt R (SendPanic p) = (map_option fst R = Some (Panic p))"
| "worker_agrees wr rd d wt R Exited = True"

fun caller_agrees :: "('r, 'w) copy_result \<Rightarrow> caller \<Rightarrow> bool" where
  "caller_agrees R Selecting = True"
| "caller_agrees R (Returned written err) =
     (map_option fst R = Some (Return (written, err)) \<or> (written = 0 \<and> err = Some ErrorCopyTimeout))"
| "caller_agrees R (Panicked p) = (map_option fst R = Some (Panic p))"

section \<open>strconv.ParseInt\<close>

text \<open>
  \<^verbatim>\<open>DoRequest\<close> parses the header with \<^verbatim>\<open>strconv.ParseInt(s, 10, 64)\<close> of the Go standard
  library. The two functions below follow \<^verbatim>\<open>strconv.ParseUint\<close> and \<^verbatim>\<open>strconv.ParseInt\<close>
  for base 10 and bit size 64: an optional sign \<^verbatim>\<open>+\<close> or \<^verbatim>\<open>-\<close>, then at least one decimal
  digit and nothing else; a value outside \<^verbatim>\<open>int64\<close> is a range error. The accumulator is a
  \<^verbatim>\<open>uint64\<close> and its overflow tests are the library's. Both return the value together
  with the error, as the Go functions do.
\<close>

definition maxUint64 :: "64 word" where
  "maxUint64 = 18446744073709551615"

fun ParseUint_digits :: "64 word \<Rightarrow> string \<Rightarrow> 64 word \<times> num_err option" where
  "ParseUint_digits n [] = (n, None)"
| "ParseUint_digits n (c # cs) =
     (if \<not> (48 \<le> (of_char c :: nat) \<and> (of_char c :: nat) \<le> 57) then (0, Some ErrSyntax)
      else
        (let d = (of_nat (of_char c - 48) :: 64 word);
             cutoff = maxUint64 div 10 + 1 in
         if n \<ge> cutoff then (maxUint64, Some ErrRange)
         else
           (let n' = n * 10; n1 = n' + d in
            if n1 < n' \<or> n1 > maxUint64 then (maxUint64, Some ErrRange)
            else ParseUint_digits n1 cs)))"

definition ParseUint :: "string \<Rightarrow> 64 word \<times> num_err option" where
  "ParseUint s = (if s = [] then (0, Some ErrSyntax) else ParseUint_digits 0 s)"

definition ParseInt :: "string \<Rightarrow> 64 word \<times> error option" where
  "ParseInt s0 =
     (if s0 = [] then (0, Some (NumError ''ParseInt'' s0 ErrSyntax))
      else
        (let neg = (hd s0 = CHR ''-'');
             s = (if hd s0 = CHR ''+'' \<or> hd s0 = CHR ''-'' then tl s0 else s0);
             (un, err) = ParseUint s;
             cutoff = (2 ^ 63 :: 64 word) in
         if err \<noteq> None \<and> err \<noteq> Some ErrRange then (0, Some (NumError ''ParseInt'' s0 ErrSyntax))
         else if \<not> neg \<and> un \<ge> cutoff then (cutoff - 1, Some (NumError ''ParseInt'' s0 ErrRange))
         else if neg \<and> un > cutoff then (- cutoff, Some (NumError ''ParseInt'' s0 ErrRange))
         else (if neg then - un else un, None)))"

section \<open>DoRequest\<close>

text \<open>
  The request body handed to \<^verbatim>\<open>http.NewRequest\<close> is either the caller's reader as it is
  or the \<^verbatim>\<open>timeoutReader\<close> built around it by \<^verbatim>\<open>newTimeoutReader\<close>.
\<close>

datatype 'q body = Bare 'q | TimeoutReader 'q duration

definition newTimeoutReader :: "'q \<Rightarrow> duration \<Rightarrow> 'q body" where
  "newTimeoutReader reader timeout = TimeoutReader reader timeout"

type_synonym Header = "string \<rightharpoonup> string list"

definition Header_Get :: "Header \<Rightarrow> string \<Rightarrow> string" where
  "Header_Get h key = (case h key of None \<Rightarrow> [] | Some [] \<Rightarrow> [] | Some (v # vs) \<Rightarrow> v)"

record 'q Request =
  Method :: string
  URL :: string
  RequestBody :: "'q body option"

record 'r Response =
  StatusCode :: int
  ResponseHeader :: Header
  Body :: 'r

definition MethodHead :: string where
  "MethodHead = ''HEAD''"

record 'q config =
  requestModFunc :: "('q Request \<Rightarrow> 'q Request) option"
  timeout :: duration

definition RequestMod :: "('q Request \<Rightarrow> 'q Request) option \<Rightarrow> 'q config \<Rightarrow> 'q config" where
  "RequestMod f conf = conf\<lparr>requestModFunc := f\<rparr>"

definition Timeout :: "duration \<Rightarrow> 'q config \<Rightarrow> 'q config" where
  "Timeout d conf = conf\<lparr>timeout := d\<rparr>"

text \<open>
  What \<^verbatim>\<open>DoRequest\<close> calls outside the package: \<^verbatim>\<open>http.NewRequest\<close>, the transport
  \<^verbatim>\<open>client.Do\<close> (which also receives the context), the \<^verbatim>\<open>Read\<close> method of the response
  body, the \<^verbatim>\<open>Write\<close> method of the caller's sink, and \<^verbatim>\<open>io.Copy\<close>.
\<close>

record ('q, 'r, 'w) env =
  NewRequest :: "string \<Rightarrow> string \<Rightarrow> 'q body option \<Rightarrow> error + 'q Request"
  client_Do :: "'q Request \<Rightarrow> 'r Response option \<times> error option"
  body_Read :: "'r Reader"
  sink_Write :: "'w Writer"
  io_Copy :: "('r, 'w) world \<Rightarrow> ((64 word \<times> error option) outcome \<times> ('r, 'w) world) option"

text \<open>
  The length check at the end of \<^verbatim>\<open>DoRequest\<close> (the block under
  \<^verbatim>\<open>req.Method != http.MethodHead\<close>): the error it leaves in \<^verbatim>\<open>err\<close>.
\<close>

definition check_length :: "'q Request \<Rightarrow> 'r Response \<Rightarrow> 64 word \<Rightarrow> error option" where
  "check_length req resp nWritten =
     (if Method req \<noteq> MethodHead then
        (let contentLengthString = Header_Get (ResponseHeader resp) ''Content-Length'' in
         if length contentLengthString > 0 then
           (case ParseInt contentLengthString of
              (contentLength, err) \<Rightarrow>
                if err \<noteq> None then err
                else if contentLength \<noteq> nWritten then Some ErrUnexpectedEOF
                else None)
         else None)
      else None)"

text \<open>
  The copy of the response body: \<^verbatim>\<open>internalTimeoutCopy\<close> on the read side when there is
  a timer, \<^verbatim>\<open>io.Copy\<close> otherwise.
\<close>

definition copy_body ::
  "('q, 'r, 'w) env \<Rightarrow> duration option \<Rightarrow> 'q config \<Rightarrow> ('r, 'w) world \<Rightarrow>
     ((64 word \<times> error option) outcome \<times> ('r, 'w) world) option" where
  "copy_body e timer conf \<sigma> =
     (if timer \<noteq> None then internalTimeoutCopy (sink_Write e) (body_Read e) (timeout conf) False \<sigma>
      else io_Copy e \<sigma>)"

text \<open>
  The first statements of \<^verbatim>\<open>DoRequest\<close>, one definition each: the loop over the
  options, the creation of the timer (\<open>None\<close> is the \<^verbatim>\<open>nil\<close> timer, \<open>Some d\<close> the timer
  made by \<^verbatim>\<open>time.AfterFunc\<close> with the duration \<open>d\<close>), the wrapping of the request body,
  and the call of the modifier.
\<close>

definition apply_opts :: "('q config \<Rightarrow> 'q config) list \<Rightarrow> 'q config" where
  "apply_opts opts = foldl (\<lambda>conf opt. opt conf) \<lparr>requestModFunc = None, timeout = 0\<rparr> opts"

definition new_timer :: "'q config \<Rightarrow> duration option" where
  "new_timer conf = (if timeout conf > 0 then Some (timeout conf) else None)"

definition wrap_requestBody :: "duration option \<Rightarrow> 'q config \<Rightarrow> 'q option \<Rightarrow> 'q body option" where
  "wrap_requestBody timer conf requestBody =
     (case requestBody of
        None \<Rightarrow> None
      | Some b \<Rightarrow> (if timer \<noteq> None then Some (newTimeoutReader b (timeout conf)) else Some (Bare b)))"

definition modify_request :: "'q config \<Rightarrow> 'q Request \<Rightarrow> 'q Request" where
  "modify_request conf req = (case requestModFunc conf of Some f \<Rightarrow> f req | None \<Rightarrow> req)"

text \<open>
  \<^verbatim>\<open>DoRequest\<close>. The result is \<open>None\<close> when the copy never returns; otherwise the pair
  \<^verbatim>\<open>(resp, err)\<close> or a panic, with the state of the sink and the events of the call, the
  deferred calls last. The context is handed on to the transport and plays no other
  part, so it is left to \<open>client_Do\<close>.
\<close>

type_synonym ('r, 'w) DoRequest_result =
  "(('r Response option \<times> error option) outcome \<times> 'w option \<times> event list) option"

definition DoRequest ::
  "('q, 'r, 'w) env \<Rightarrow> string \<Rightarrow> string \<Rightarrow> 'q option \<Rightarrow> 'w option \<Rightarrow> ('q config \<Rightarrow> 'q config) list \<Rightarrow>
     ('r, 'w) DoRequest_result" where
  "DoRequest e method urlString requestBody responseBody opts =
     (let conf = apply_opts opts;
          timer = new_timer conf;
          tr0 = (case timer of Some d \<Rightarrow> [AfterFunc d] | None \<Rightarrow> []);
          requestBody' = wrap_requestBody timer conf requestBody
      in
      case NewRequest e method urlString requestBody' of
        Inl err \<Rightarrow> Some (Return (None, Some err), responseBody, tr0 @ [CtxCancel])
      | Inr req0 \<Rightarrow>
          (let req = modify_request conf req0;
               (resp, err) = client_Do e req;
               tr1 = (if timer \<noteq> None then tr0 @ [TimerStop] else tr0)
           in
           if err \<noteq> None then Some (Return (resp, err), responseBody, tr1 @ [CtxCancel])
           else
             (case resp of
                None \<Rightarrow> Some (Panic ''nil pointer dereference'', responseBody, tr1 @ [CtxCancel])
              | Some r \<Rightarrow>
                  (case responseBody of
                     None \<Rightarrow> Some (Return (Some r, None), None, tr1 @ [BodyClose, CtxCancel])
                   | Some w \<Rightarrow>
                       (case copy_body e timer conf \<lparr>src = Body r, dst = w, trace = tr1\<rparr> of
                          None \<Rightarrow> None
                        | Some (Panic p, \<sigma>) \<Rightarrow>
                            Some (Panic p, Some (dst \<sigma>), trace \<sigma> @ [BodyClose, CtxCancel])
                        | Some (Return (nWritten, err), \<sigma>) \<Rightarrow>
                            (let r' = r\<lparr>Body := src \<sigma>\<rparr>;
                                 err' = (if err \<noteq> None then err else check_length req r' nWritten)
                             in Some (Return (Some r', err'), Some (dst \<sigma>),
                                      trace \<sigma> @ [BodyClose, CtxCancel])))))))"

text \<open>
  The ordinary unbounded request, for comparison: the request is built around the
  caller's body as it is, modified, sent, and the response body is copied with
  \<^verbatim>\<open>io.Copy\<close> and its length checked. There is no timer, so no event of a timer.
\<close>

definition unbounded_request ::
  "('q, 'r, 'w) env \<Rightarrow> string \<Rightarrow> string \<Rightarrow> 'q option \<Rightarrow> 'w option \<Rightarrow>
     ('q Request \<Rightarrow> 'q Request) option \<Rightarrow> ('r, 'w) DoRequest_result" where
  "unbounded_request e method urlString requestBody responseBody modifier =
     (case NewRequest e method urlString (map_option Bare requestBody) of
        Inl err \<Rightarrow> Some (Return (None, Some err), responseBody, [CtxCancel])
      | Inr req0 \<Rightarrow>
          (let req = (case modifier of Some f \<Rightarrow> f req0 | None \<Rightarrow> req0);
               (resp, err) = client_Do e req
           in
           if err \<noteq> None then Some (Return (resp, err), responseBody, [CtxCancel])
           else
             (case resp of
                None \<Rightarrow> Some (Panic ''nil pointer dereference'', responseBody, [CtxCancel])
              | Some r \<Rightarrow>
                  (case responseBody of
                     None \<Rightarrow> Some (Return (Some r, None), None, [BodyClose, CtxCancel])
                   | Some w \<Rightarrow>
                       (case io_Copy e \<lparr>src = Body r, dst = w, trace = []\<rparr> of
                          None \<Rightarrow> None
                        | Some (Panic p, \<sigma>) \<Rightarrow>
                            Some (Panic p, Some (dst \<sigma>), trace \<sigma> @ [BodyClose, CtxCancel])
                        | Some (Return (nWritten, err), \<sigma>) \<Rightarrow>
                            (let r' = r\<lparr>Body := src \<sigma>\<rparr>;
                                 err' = (if err \<noteq> None then err else check_length req r' nWritten)
                             in Some (Return (Some r', err'), Some (dst \<sigma>),
                                      trace \<sigma> @ [BodyClose, CtxCancel])))))))"

text \<open>
  Decimal numerals, for the statements about \<^verbatim>\<open>strconv.ParseInt\<close>: \<open>int64_decimal s\<close> is
  the number \<open>s\<close> denotes when \<open>s\<close> is an optional sign \<^verbatim>\<open>+\<close> or \<^verbatim>\<open>-\<close> followed by at least
  one decimal digit and nothing else, and the number fits an \<^verbatim>\<open>int64\<close>; otherwise it is
  \<open>None\<close>. \<open>signed_result\<close> is the second half of \<^verbatim>\<open>ParseInt\<close>, what it makes of the result
  of \<^verbatim>\<open>ParseUint\<close>.
\<close>

definition is_digit :: "char \<Rightarrow> bool" where
  "is_digit c = (48 \<le> (of_char c :: nat) \<and> (of_char c :: nat) \<le> 57)"

fun decimal :: "string \<Rightarrow> nat" where
  "decimal [] = 0"
| "decimal (c # cs) = (of_char c - 48) * 10 ^ length cs + decimal cs"

definition int64_decimal :: "string \<Rightarrow> int option" where
  "int64_decimal s =
     (case s of
        [] \<Rightarrow> None
      | c # cs \<Rightarrow>
          (let ds = (if c = CHR ''+'' \<or> c = CHR ''-'' then cs else s) in
           if ds = [] \<or> \<not> list_all is_digit ds then None
           else if c = CHR ''-'' then
             (if decimal ds \<le> 2 ^ 63 then Some (- int (decimal ds)) else None)
           else (if decimal ds < 2 ^ 63 then Some (int (decimal ds)) else None)))"

definition signed_result :: "string \<Rightarrow> bool \<Rightarrow> 64 word \<times> num_err option \<Rightarrow> 64 word \<times> error option" where
  "signed_result s0 neg r =
     (case r of (un, err) \<Rightarrow>
        if err \<noteq> None \<and> err \<noteq> Some ErrRange then (0, Some (NumError ''ParseInt'' s0 ErrSyntax))
        else if \<not> neg \<and> un \<ge> 2 ^ 63 then (2 ^ 63 - 1, Some (NumError ''ParseInt'' s0 ErrRange))
        else if neg \<and> un > 2 ^ 63 then (- (2 ^ 63), Some (NumError ''ParseInt'' s0 ErrRange))
        else (if neg then - un else un, None))"

section \<open>Sources and sinks used in the statements\<close>

text \<open>
  \<open>delivers rd r ns m\<close>: started in state \<open>r\<close>, the reader returns chunks of \<open>ns\<close> bytes,
  one per call and without an error, and then \<open>m\<close> bytes together with \<^verbatim>\<open>io.EOF\<close>
  (\<open>m = 0\<close> is the plain end of data). \<open>accepts_in_full wr\<close>: the writer takes every
  write whole and reports no error.
\<close>

fun delivers :: "'r Reader \<Rightarrow> 'r \<Rightarrow> nat list \<Rightarrow> nat \<Rightarrow> bool" where
  "delivers rd r [] m = (fst (rd r chunkSize) = Return (int m, Some EOF))"
| "delivers rd r (n # ns) m =
     (fst (rd r chunkSize) = Return (int n, None) \<and> delivers rd (snd (rd r chunkSize)) ns m)"

definition accepts_in_full :: "'w Writer \<Rightarrow> bool" where
  "accepts_in_full wr = (\<forall>w n. fst (wr w n) = Return (int n, None))"

text \<open>
  A reader that plays back a list of results and then reports the end of data, a
  writer that takes everything and counts it, and a writer that plays back a list of
  results and takes everything after that.
\<close>

fun scriptReader :: "io_result list Reader" where
  "scriptReader [] n = (Return (0, Some EOF), [])"
| "scriptReader (r # rs) n = (Return r, rs)"

definition countingWriter :: "nat Writer" where
  "countingWriter k n = (Return (int n, None), k + n)"

fun scriptWriter :: "io_result list Writer" where
  "scriptWriter [] n = (Return (int n, None), [])"
| "scriptWriter (r # rs) n = (Return r, rs)"

text \<open>
  The events of one iteration whose read returns \<open>nr\<close> bytes, in the order of the calls:
  the timer is reset and stopped around the read when the read side is bounded
  (\<^verbatim>\<open>writeTimeout == false\<close>), around the write otherwise, and there is a write only when
  \<^verbatim>\<open>nr > 0\<close>.
\<close>

definition iteration_events :: "duration \<Rightarrow> bool \<Rightarrow> int \<Rightarrow> event list" where
  "iteration_events d wt nr =
     (if wt then SrcRead chunkSize # (if 0 < nr then [TimerReset d, DstWrite (nat nr), TimerStop] else [])
      else [TimerReset d, SrcRead chunkSize, TimerStop] @ (if 0 < nr then [DstWrite (nat nr)] else []))"

text \<open>
  \<open>transfers wr rd ns (r, w) = Some (r', w')\<close>: started in the states \<open>r\<close> and \<open>w\<close>, the
  source returns chunks of \<open>ns\<close> bytes without an error, each chunk fits the buffer, the
  sink takes each of them whole and without an error, and this leaves them in the
  states \<open>r'\<close> and \<open>w'\<close>. These are the chunks completed before the iteration a statement
  is about; \<open>transfer_events\<close> are their events.
\<close>

fun transfers :: "'w Writer \<Rightarrow> 'r Reader \<Rightarrow> nat list \<Rightarrow> 'r \<times> 'w \<Rightarrow> ('r \<times> 'w) option" where
  "transfers wr rd [] (r, w) = Some (r, w)"
| "transfers wr rd (n # ns) (r, w) =
     (case rd r chunkSize of
        (Return (nr, None), r') \<Rightarrow>
          if nr \<noteq> int n \<or> n > chunkSize then None
          else if n = 0 then transfers wr rd ns (r', w)
          else (case wr w n of
                  (Return (nw, None), w') \<Rightarrow> if nw = int n then transfers wr rd ns (r', w') else None
                | _ \<Rightarrow> None)
      | _ \<Rightarrow> None)"

fun transfer_events :: "duration \<Rightarrow> bool \<Rightarrow> nat list \<Rightarrow> event list" where
  "transfer_events d wt [] = []"
| "transfer_events d wt (n # ns) = iteration_events d wt (int n) @ transfer_events d wt ns"

text \<open>
  An environment for \<^verbatim>\<open>DoRequest\<close>: every request is well formed, the transport answers
  200 with the header \<open>h\<close> and a body of 1000 and then 500 bytes, the sink counts, and
  \<^verbatim>\<open>io.Copy\<close> moves the whole body at once.
\<close>

definition example_env :: "Header \<Rightarrow> (unit, io_result list, nat) env" where
  "example_env h =
     \<lparr>NewRequest = (\<lambda>method urlString b. Inr \<lparr>Method = method, URL = urlString, RequestBody = b\<rparr>),
      client_Do = (\<lambda>req. (Some \<lparr>StatusCode = 200, ResponseHeader = h,
                                 Body = [(1000, None), (500, None)]\<rparr>, None)),
      body_Read = scriptReader,
      sink_Write = countingWriter,
      io_Copy = (\<lambda>\<sigma>. Some (Return (word_of_int (sum_list (map fst (src \<sigma>))), None),
                          \<sigma>\<lparr>src := [], dst := dst \<sigma> + nat (sum_list (map fst (src \<sigma>)))\<rparr>))\<rparr>"

section \<open>Properties of the copy loop\<close>

lemmas iteration_defs =
  copy_iteration_def write_chunk_def src_Read_def dst_Write_def emit_def emit_if_def Let_def

lemma accepts_in_fullD:
  "accepts_in_full wr \<Longrightarrow> \<exists>w'. wr w n = (Return (int n, None), w')"
  unfolding accepts_in_full_def by (metis fst_conv surj_pair)

text \<open>
  An iteration whose read returns \<open>n\<close> bytes, with a sink that takes them all: the
  counter grows by \<open>n\<close>, and the loop goes on exactly when the read had no error.
\<close>

lemma copy_iteration_accepted:
  assumes "fst (rd (src \<sigma>) chunkSize) = Return (int n, er)"
    and "n \<le> chunkSize"
    and "accepts_in_full wr"
  shows "\<exists>\<sigma>'. copy_iteration wr rd d wt w \<sigma> =
           ((case er of
               None \<Rightarrow> Continue (w + of_nat n)
             | Some e \<Rightarrow> Break (w + of_nat n) (if e = EOF then None else Some e)), \<sigma>') \<and>
          src \<sigma>' = snd (rd (src \<sigma>) chunkSize)"
proof -
  obtain r' where rd: "rd (src \<sigma>) chunkSize = (Return (int n, er), r')"
    using assms(1) by (cases "rd (src \<sigma>) chunkSize") simp
  show ?thesis
  proof (cases "n = 0")
    case True
    then show ?thesis using rd by (simp add: iteration_defs split: option.splits)
  next
    case False
    obtain w' where "wr (dst \<sigma>) n = (Return (int n, None), w')"
      using accepts_in_fullD [OF assms(3)] by blast
    with False show ?thesis using rd assms(2)
      by (simp add: iteration_defs split: option.splits)
  qed
qed

lemma copy_loop_delivers:
  assumes "accepts_in_full wr" and "m \<le> chunkSize"
  shows "delivers rd (src \<sigma>) ns m \<Longrightarrow> \<forall>n\<in>set ns. n \<le> chunkSize \<Longrightarrow>
     \<exists>\<sigma>'. copy_loop wr rd d wt w \<sigma> = Some (Return (w + of_nat (sum_list ns + m), None), \<sigma>')"
proof (induction ns arbitrary: w \<sigma>)
  case Nil
  then have "fst (rd (src \<sigma>) chunkSize) = Return (int m, Some EOF)" by simp
  from copy_iteration_accepted
    [where rd = rd and \<sigma> = \<sigma> and d = d and wt = wt and w = w, OF this assms(2) assms(1)]
  show ?case by (subst copy_loop.simps) auto
next
  case (Cons n ns)
  then have rd: "fst (rd (src \<sigma>) chunkSize) = Return (int n, None)"
    and rest: "delivers rd (snd (rd (src \<sigma>) chunkSize)) ns m"
    and n: "n \<le> chunkSize" and ns: "\<forall>n\<in>set ns. n \<le> chunkSize" by simp_all
  from copy_iteration_accepted
    [where rd = rd and \<sigma> = \<sigma> and d = d and wt = wt and w = w, OF rd n assms(1)]
  obtain \<sigma>1 where it: "copy_iteration wr rd d wt w \<sigma> = (Continue (w + of_nat n), \<sigma>1)"
    and s: "src \<sigma>1 = snd (rd (src \<sigma>) chunkSize)" by auto
  from rest s have "delivers rd (src \<sigma>1) ns m" by simp
  from Cons.IH [OF this ns, of "w + of_nat n"]
  obtain \<sigma>' where "copy_loop wr rd d wt (w + of_nat n) \<sigma>1 =
      Some (Return (w + of_nat n + of_nat (sum_list ns + m), None), \<sigma>')" by blast
  then show ?case using it by (subst copy_loop.simps) (simp add: add.assoc)
qed

lemma sint_of_nat_64: "N < 2 ^ 63 \<Longrightarrow> sint (of_nat N :: 64 word) = int N"
proof -
  assume a: "N < 2 ^ 63"
  then have b: "int N < 2 ^ 63" by (metis of_nat_less_iff of_nat_numeral of_nat_power)
  have "(of_nat N :: 64 word) = word_of_int (int N)" by simp
  then have "sint (of_nat N :: 64 word) = (int N + 2 ^ 63) mod 2 ^ 64 - 2 ^ 63"
    by (simp only: int_word_sint) simp
  also have "(int N + 2 ^ 63) mod 2 ^ 64 = int N + 2 ^ 63"
    using b by (intro mod_pos_pos_trivial) simp_all
  finally show ?thesis by simp
qed

lemma src_Read_eq:
  "rd (src \<sigma>) n = (res, r') \<Longrightarrow>
   src_Read rd n \<sigma> = (res, \<sigma>\<lparr>src := r', trace := trace \<sigma> @ [SrcRead n]\<rparr>)"
  by (simp add: src_Read_def emit_def)

lemma dst_Write_eq:
  "wr (dst \<sigma>) n = (res, w') \<Longrightarrow>
   dst_Write wr n \<sigma> = (res, \<sigma>\<lparr>dst := w', trace := trace \<sigma> @ [DstWrite n]\<rparr>)"
  by (simp add: dst_Write_def emit_def)

lemma write_chunk_eq:
  assumes "nr \<le> int chunkSize" and "wr (dst \<sigma>) (nat nr) = (Return (nw, ew), w')"
  shows "write_chunk wr d wt nr w \<sigma> =
     ((let written' = (if 0 < nw then w + word_of_int nw else w) in
       if ew \<noteq> None then Break written' ew
       else if nr \<noteq> nw then Break written' (Some ErrShortWrite)
       else Continue written'),
      \<sigma>\<lparr>dst := w', trace := trace \<sigma> @
          (if wt then [TimerReset d, DstWrite (nat nr), TimerStop] else [DstWrite (nat nr)])\<rparr>)"
proof (cases wt)
  case True
  let ?\<sigma>1 = "\<sigma>\<lparr>trace := trace \<sigma> @ [TimerReset d]\<rparr>"
  from assms(2) have "wr (dst ?\<sigma>1) (nat nr) = (Return (nw, ew), w')" by simp
  from dst_Write_eq [where wr = wr and \<sigma> = ?\<sigma>1, OF this] True assms(1) show ?thesis
    by (simp add: write_chunk_def emit_if_def emit_def Let_def)
next
  case False
  from dst_Write_eq [where wr = wr and \<sigma> = \<sigma>, OF assms(2)] False assms(1) show ?thesis
    by (simp add: write_chunk_def emit_if_def emit_def Let_def)
qed

lemma copy_iteration_no_data:
  assumes "rd (src \<sigma>) chunkSize = (Return (nr, er), r')" and "nr \<le> 0"
  shows "copy_iteration wr rd d wt w \<sigma> =
     ((case er of None \<Rightarrow> Continue w | Some e \<Rightarrow> Break w (if e = EOF then None else Some e)),
      \<sigma>\<lparr>src := r', trace := trace \<sigma> @ iteration_events d wt nr\<rparr>)"
  using assms by (simp add: iteration_defs iteration_events_def split: option.splits)

lemma copy_iteration_write:
  assumes "rd (src \<sigma>) chunkSize = (Return (nr, er), r')" and "0 < nr" and "nr \<le> int chunkSize"
    and "wr (dst \<sigma>) (nat nr) = (Return (nw, ew), w')"
  shows "copy_iteration wr rd d wt w \<sigma> =
     ((let written' = (if 0 < nw then w + word_of_int nw else w) in
       if ew \<noteq> None then Break written' ew
       else if nr \<noteq> nw then Break written' (Some ErrShortWrite)
       else (case er of None \<Rightarrow> Continue written'
             | Some e \<Rightarrow> Break written' (if e = EOF then None else Some e))),
      \<sigma>\<lparr>src := r', dst := w', trace := trace \<sigma> @ iteration_events d wt nr\<rparr>)"
proof -
  let ?\<sigma>1 = "emit_if (\<not> wt) (TimerReset d) \<sigma>"
  from assms(1) have "rd (src ?\<sigma>1) chunkSize = (Return (nr, er), r')"
    by (simp add: emit_if_def emit_def)
  note rd = src_Read_eq [where rd = rd and \<sigma> = ?\<sigma>1, OF this]
  let ?\<sigma>3 = "emit_if (\<not> wt) TimerStop (?\<sigma>1\<lparr>src := r', trace := trace ?\<sigma>1 @ [SrcRead chunkSize]\<rparr>)"
  from assms(4) have "wr (dst ?\<sigma>3) (nat nr) = (Return (nw, ew), w')"
    by (simp add: emit_if_def emit_def)
  note wc = write_chunk_eq [where wr = wr and \<sigma> = ?\<sigma>3 and d = d and wt = wt and w = w, OF assms(3) this]
  have tr: "trace ?\<sigma>3 @ (if wt then [TimerReset d, DstWrite (nat nr), TimerStop] else [DstWrite (nat nr)])
      = trace \<sigma> @ iteration_events d wt nr"
    using assms(2) by (simp add: emit_if_def emit_def iteration_events_def)
  have st: "?\<sigma>3\<lparr>dst := w', trace := trace \<sigma> @ iteration_events d wt nr\<rparr> =
      \<sigma>\<lparr>src := r', dst := w', trace := trace \<sigma> @ iteration_events d wt nr\<rparr>"
    by (simp add: emit_if_def emit_def)
  show ?thesis
    unfolding copy_iteration_def Let_def rd
    using assms(2) wc
    by (simp only: tr st prod.case outcome.case if_True)
       (simp add: Let_def split: option.splits)
qed

lemma copy_loop_transfers:
  "transfers wr rd ns (src \<sigma>, dst \<sigma>) = Some (r1, w1) \<Longrightarrow>
   copy_loop wr rd d wt w \<sigma> =
   copy_loop wr rd d wt (w + of_nat (sum_list ns))
     (\<sigma>\<lparr>src := r1, dst := w1, trace := trace \<sigma> @ transfer_events d wt ns\<rparr>)"
proof (induction ns arbitrary: w \<sigma>)
  case Nil
  then show ?case by auto
next
  case (Cons n ns)
  from Cons.prems obtain r' where rd: "rd (src \<sigma>) chunkSize = (Return (int n, None), r')"
    and n: "n \<le> chunkSize"
    by (auto split: prod.splits outcome.splits option.splits if_splits)
  show ?case
  proof (cases "n = 0")
    case True
    with Cons.prems rd have t: "transfers wr rd ns (r', dst \<sigma>) = Some (r1, w1)" by simp
    let ?\<sigma>1 = "\<sigma>\<lparr>src := r', trace := trace \<sigma> @ iteration_events d wt (int n)\<rparr>"
    from rd True have it: "copy_iteration wr rd d wt w \<sigma> = (Continue w, ?\<sigma>1)"
      using copy_iteration_no_data [of rd \<sigma> "int n" None r' wr d wt w] by simp
    from t have "transfers wr rd ns (src ?\<sigma>1, dst ?\<sigma>1) = Some (r1, w1)" by simp
    from Cons.IH [OF this, of w] it True show ?thesis
      by (subst copy_loop.simps) simp
  next
    case False
    with Cons.prems rd n obtain w' where wr: "wr (dst \<sigma>) n = (Return (int n, None), w')"
      and t: "transfers wr rd ns (r', w') = Some (r1, w1)"
      by (auto split: prod.splits outcome.splits option.splits if_splits)
    let ?\<sigma>1 = "\<sigma>\<lparr>src := r', dst := w', trace := trace \<sigma> @ iteration_events d wt (int n)\<rparr>"
    from rd wr n False have it: "copy_iteration wr rd d wt w \<sigma> = (Continue (w + of_nat n), ?\<sigma>1)"
      using copy_iteration_write [of rd \<sigma> "int n" None r' wr "int n" None w' d wt w] by simp
    from t have "transfers wr rd ns (src ?\<sigma>1, dst ?\<sigma>1) = Some (r1, w1)" by simp
    from Cons.IH [OF this, of "w + of_nat n"] it show ?thesis
      by (subst copy_loop.simps) (simp add: add.assoc)
  qed
qed

lemma internalTimeoutCopy_breaks_after:
  assumes "transfers wr rd ns (src \<sigma>, dst \<sigma>) = Some (r1, w1)"
    and "rd r1 chunkSize = (Return (nr, er), r2)" and "0 < nr" and "nr \<le> int chunkSize"
    and "wr w1 (nat nr) = (Return (nw, ew), w2)"
    and "ew \<noteq> None \<or> nr \<noteq> nw \<or> er \<noteq> None"
  shows "internalTimeoutCopy wr rd d wt \<sigma> =
     Some (Return (of_nat (sum_list ns) + (if 0 < nw then word_of_int nw else 0),
                   if ew \<noteq> None then ew
                   else if nr \<noteq> nw then Some ErrShortWrite
                   else if er = Some EOF then None else er),
           \<sigma>\<lparr>src := r2, dst := w2,
               trace := trace \<sigma> @ transfer_events d wt ns @ iteration_events d wt nr\<rparr>)"
proof -
  let ?\<sigma>1 = "\<sigma>\<lparr>src := r1, dst := w1, trace := trace \<sigma> @ transfer_events d wt ns\<rparr>"
  let ?w = "(0::64 word) + of_nat (sum_list ns)"
  have loop: "internalTimeoutCopy wr rd d wt \<sigma> = copy_loop wr rd d wt ?w ?\<sigma>1"
    unfolding internalTimeoutCopy_def by (rule copy_loop_transfers [OF assms(1)])
  have rd: "rd (src ?\<sigma>1) chunkSize = (Return (nr, er), r2)" using assms(2) by simp
  have wr: "wr (dst ?\<sigma>1) (nat nr) = (Return (nw, ew), w2)" using assms(5) by simp
  note it = copy_iteration_write
    [where rd = rd and wr = wr and \<sigma> = ?\<sigma>1 and d = d and wt = wt and w = ?w,
     OF rd assms(3) assms(4) wr]
  show ?thesis
    unfolding loop
    apply (subst copy_loop.simps)
    apply (subst it)
    using assms(6)
    apply (auto simp add: Let_def split: option.splits)
    done
qed

lemma internalTimeoutCopy_ends_after:
  assumes "transfers wr rd ns (src \<sigma>, dst \<sigma>) = Some (r1, w1)"
    and "rd r1 chunkSize = (Return (nr, Some e), r2)" and "nr \<le> 0"
  shows "internalTimeoutCopy wr rd d wt \<sigma> =
     Some (Return (of_nat (sum_list ns), if e = EOF then None else Some e),
           \<sigma>\<lparr>src := r2, dst := w1,
               trace := trace \<sigma> @ transfer_events d wt ns @ iteration_events d wt nr\<rparr>)"
proof -
  let ?\<sigma>1 = "\<sigma>\<lparr>src := r1, dst := w1, trace := trace \<sigma> @ transfer_events d wt ns\<rparr>"
  let ?w = "(0::64 word) + of_nat (sum_list ns)"
  have loop: "internalTimeoutCopy wr rd d wt \<sigma> = copy_loop wr rd d wt ?w ?\<sigma>1"
    unfolding internalTimeoutCopy_def by (rule copy_loop_transfers [OF assms(1)])
  have rd: "rd (src ?\<sigma>1) chunkSize = (Return (nr, Some e), r2)" using assms(2) by simp
  note it = copy_iteration_no_data
    [where rd = rd and wr = wr and \<sigma> = ?\<sigma>1 and d = d and wt = wt and w = ?w, OF rd assms(3)]
  show ?thesis
    unfolding loop
    apply (subst copy_loop.simps)
    apply (subst it)
    apply simp
    done
qed

text \<open>
  Claim C1. A source hands over \<open>N\<close> bytes in chunks, none longer than the buffer of
  \<open>chunkSize\<close> bytes (chunks of no bytes are allowed, and the last chunk may come with the
  end of data or before it), and the sink takes every write whole. Then
  \<^verbatim>\<open>internalTimeoutCopy\<close> returns, with a \<^verbatim>\<open>nil\<close> error and \<^verbatim>\<open>written\<close> the \<^verbatim>\<open>int64\<close> of \<open>N\<close>: the
  number \<open>N\<close> itself whenever \<open>N\<close> fits an \<^verbatim>\<open>int64\<close>. This holds for either bounded side
  and any duration; the timer has no influence on the loop other than through what the
  source and the sink return.
\<close>

theorem internalTimeoutCopy_copies_all:
  assumes "delivers rd (src \<sigma>) ns m"
    and "\<forall>n\<in>set ns. n \<le> chunkSize"
    and "m \<le> chunkSize"
    and "accepts_in_full wr"
  shows "\<exists>written \<sigma>'.
           internalTimeoutCopy wr rd d writeTimeout \<sigma> = Some (Return (written, None), \<sigma>') \<and>
           written = of_nat (sum_list ns + m) \<and>
           (sum_list ns + m < 2 ^ 63 \<longrightarrow> sint written = int (sum_list ns + m))"
proof -
  from copy_loop_delivers [OF assms(4) assms(3) assms(1) assms(2), of d writeTimeout 0]
  obtain \<sigma>' where "copy_loop wr rd d writeTimeout 0 \<sigma> =
      Some (Return (0 + of_nat (sum_list ns + m), None), \<sigma>')" by blast
  then have "internalTimeoutCopy wr rd d writeTimeout \<sigma> =
      Some (Return (of_nat (sum_list ns + m), None), \<sigma>')"
    by (simp add: internalTimeoutCopy_def del: of_nat_add)
  moreover have "sum_list ns + m < 2 ^ 63 \<longrightarrow>
      sint (of_nat (sum_list ns + m) :: 64 word) = int (sum_list ns + m)"
    using sint_of_nat_64 by blast
  ultimately show ?thesis by blast
qed

theorem internalTimeoutCopy_copies_all_witness:
  "delivers scriptReader [(1000, None), (0, None), (65536, None), (500, Some EOF)] [1000, 0, 65536] 500 \<and>
   1000 \<le> chunkSize \<and> 0 \<le> chunkSize \<and> 65536 \<le> chunkSize \<and> 500 \<le> chunkSize \<and>
   accepts_in_full countingWriter \<and> sum_list [1000, 0, 65536] + 500 < (2::nat) ^ 63 \<and>
   (\<exists>\<sigma>'. internalTimeoutCopy countingWriter scriptReader 5 False
            \<lparr>src = [(1000, None), (0, None), (65536, None), (500, Some EOF)], dst = 0, trace = []\<rparr> =
          Some (Return (67036, None), \<sigma>'))"
proof -
  let ?\<sigma> = "\<lparr>src = [(1000, None), (0, None), (65536, None), (500, Some EOF)],
             dst = 0::nat, trace = []\<rparr>"
  have del: "delivers scriptReader (src ?\<sigma>) [1000, 0, 65536] 500" by simp
  have c: "\<forall>n\<in>set [1000, 0, 65536]. n \<le> chunkSize" by (simp add: chunkSize_def)
  have m: "(500::nat) \<le> chunkSize" by (simp add: chunkSize_def)
  have a: "accepts_in_full countingWriter" by (simp add: accepts_in_full_def countingWriter_def)
  from internalTimeoutCopy_copies_all [OF del c m a, of 5 False] del c m a
  show ?thesis by simp
qed

text \<open>
  Claim C2, as amended. After any number of completed chunks, a write that reports
  fewer bytes than it was offered and no error ends \<^verbatim>\<open>internalTimeoutCopy\<close> at once with
  \<^verbatim>\<open>io.ErrShortWrite\<close>: the trace ends with the events of that iteration. The count
  returned is the bytes of the completed chunks plus the number the short write
  reported, when that number is positive: \<^verbatim>\<open>written += int64(nw)\<close> comes before the test
  \<^verbatim>\<open>nr != nw\<close>.
\<close>

theorem short_write_stops_copy:
  assumes "transfers wr rd ns (src \<sigma>, dst \<sigma>) = Some (r1, w1)"
    and "rd r1 chunkSize = (Return (nr, er), r2)" and "0 < nr" and "nr \<le> int chunkSize"
    and "wr w1 (nat nr) = (Return (nw, None), w2)" and "nw < nr"
  shows "internalTimeoutCopy wr rd d writeTimeout \<sigma> =
     Some (Return (of_nat (sum_list ns) + (if 0 < nw then word_of_int nw else 0),
                   Some ErrShortWrite),
           \<sigma>\<lparr>src := r2, dst := w2,
               trace := trace \<sigma> @ transfer_events d writeTimeout ns @
                        iteration_events d writeTimeout nr\<rparr>)"
  using internalTimeoutCopy_breaks_after [OF assms(1-5), of d writeTimeout] assms(6)
  by simp

theorem short_write_stops_copy_witness:
  "internalTimeoutCopy scriptWriter scriptReader 5 False
      \<lparr>src = [(10, None), (10, None)], dst = [(10, None), (4, None)], trace = []\<rparr> =
   Some (Return (14, Some ErrShortWrite),
         \<lparr>src = [], dst = [],
            trace = [TimerReset 5, SrcRead chunkSize, TimerStop, DstWrite 10,
                     TimerReset 5, SrcRead chunkSize, TimerStop, DstWrite 10]\<rparr>)"
proof -
  let ?\<sigma> = "\<lparr>src = [(10, None), (10, None)], dst = [(10, None), (4, None)], trace = []\<rparr>
             :: (io_result list, io_result list) world"
  have t: "transfers scriptWriter scriptReader [10] (src ?\<sigma>, dst ?\<sigma>) = Some ([(10, None)], [(4, None)])"
    by (simp add: chunkSize_def)
  have r: "scriptReader [(10, None)] chunkSize = (Return (10, None), [])" by simp
  have w: "scriptWriter [(4, None)] (nat 10) = (Return (4, None), [])" by simp
  have c: "(10::int) \<le> int chunkSize" by (simp add: chunkSize_def)
  from short_write_stops_copy [OF t r _ c w, of 5 False]
  show ?thesis by (simp add: iteration_events_def)
qed

text \<open>
  The claim as it was stated, with the bytes of the short write left out of the count,
  fails: one chunk of 10 bytes completes, of the next 10 bytes the sink reports 4, and
  the count returned is 14, not 10.
\<close>

theorem short_write_counterexample:
  "map_option fst (internalTimeoutCopy scriptWriter scriptReader 5 False
      \<lparr>src = [(10, None), (10, None)], dst = [(10, None), (4, None)], trace = []\<rparr>) =
     Some (Return (14, Some ErrShortWrite)) \<and>
   map_option fst (internalTimeoutCopy scriptWriter scriptReader 5 False
      \<lparr>src = [(10, None), (10, None)], dst = [(10, None), (4, None)], trace = []\<rparr>) \<noteq>
     Some (Return (10, Some ErrShortWrite))"
proof -
  let ?\<sigma> = "\<lparr>src = [(10, None), (10, None)], dst = [(10, None), (4, None)], trace = []\<rparr>
             :: (io_result list, io_result list) world"
  have t: "transfers scriptWriter scriptReader [10] (src ?\<sigma>, dst ?\<sigma>) = Some ([(10, None)], [(4, None)])"
    by (simp add: chunkSize_def)
  have r: "scriptReader [(10, None)] chunkSize = (Return (10, None), [])" by simp
  have w: "scriptWriter [(4, None)] (nat 10) = (Return (4, None), [])" by simp
  have c: "(10::int) \<le> int chunkSize" by (simp add: chunkSize_def)
  from internalTimeoutCopy_breaks_after [OF t r _ c w, of 5 False]
  show ?thesis by simp
qed

text \<open>
  Claim C3. After any number of completed chunks, a read that returns data together
  with \<^verbatim>\<open>io.EOF\<close> has its data written (the trace ends with the events of that write) and
  counted, and, the sink having taken it, \<^verbatim>\<open>internalTimeoutCopy\<close> returns a \<^verbatim>\<open>nil\<close> error,
  not \<^verbatim>\<open>io.EOF\<close>. In particular, bounded on the write side, chunks of 1000, 0 and 500
  bytes followed by the end of data give 1500 and \<^verbatim>\<open>nil\<close>, whether the end of data comes
  in a read of its own or with the last 500 bytes.
\<close>

theorem eof_with_data_is_copied:
  assumes "transfers wr rd ns (src \<sigma>, dst \<sigma>) = Some (r1, w1)"
    and "rd r1 chunkSize = (Return (nr, Some EOF), r2)" and "0 < nr" and "nr \<le> int chunkSize"
    and "wr w1 (nat nr) = (Return (nr, None), w2)"
  shows "internalTimeoutCopy wr rd d writeTimeout \<sigma> =
           Some (Return (of_nat (sum_list ns) + word_of_int nr, None),
                 \<sigma>\<lparr>src := r2, dst := w2,
                     trace := trace \<sigma> @ transfer_events d writeTimeout ns @
                              iteration_events d writeTimeout nr\<rparr>) \<and>
         map_option fst (internalTimeoutCopy countingWriter scriptReader d True
            \<lparr>src = [(1000, None), (0, None), (500, None)], dst = 0, trace = []\<rparr>) =
           Some (Return (1500, None)) \<and>
         map_option fst (internalTimeoutCopy countingWriter scriptReader d True
            \<lparr>src = [(1000, None), (0, None), (500, Some EOF)], dst = 0, trace = []\<rparr>) =
           Some (Return (1500, None))"
proof (intro conjI)
  show "internalTimeoutCopy wr rd d writeTimeout \<sigma> =
           Some (Return (of_nat (sum_list ns) + word_of_int nr, None),
                 \<sigma>\<lparr>src := r2, dst := w2,
                     trace := trace \<sigma> @ transfer_events d writeTimeout ns @
                              iteration_events d writeTimeout nr\<rparr>)"
    using internalTimeoutCopy_breaks_after [OF assms(1-5), of d writeTimeout] assms(3)
    by simp
next
  let ?\<sigma> = "\<lparr>src = [(1000, None), (0, None), (500, None)], dst = 0::nat, trace = []\<rparr>"
  have t: "transfers countingWriter scriptReader [1000, 0, 500] (src ?\<sigma>, dst ?\<sigma>) = Some ([], 1500)"
    by (simp add: chunkSize_def countingWriter_def)
  have r: "scriptReader [] chunkSize = (Return (0, Some EOF), [])" by simp
  from internalTimeoutCopy_ends_after [OF t r, of d True]
  show "map_option fst (internalTimeoutCopy countingWriter scriptReader d True ?\<sigma>) =
           Some (Return (1500, None))" by simp
next
  let ?\<sigma> = "\<lparr>src = [(1000, None), (0, None), (500, Some EOF)], dst = 0::nat, trace = []\<rparr>"
  have t: "transfers countingWriter scriptReader [1000, 0] (src ?\<sigma>, dst ?\<sigma>) =
      Some ([(500, Some EOF)], 1000)"
    by (simp add: chunkSize_def countingWriter_def)
  have r: "scriptReader [(500, Some EOF)] chunkSize = (Return (500, Some EOF), [])" by simp
  have w: "countingWriter 1000 (nat 500) = (Return (500, None), 1500)"
    by (simp add: countingWriter_def)
  have c: "(500::int) \<le> int chunkSize" by (simp add: chunkSize_def)
  from internalTimeoutCopy_breaks_after [OF t r _ c w, of d True]
  show "map_option fst (internalTimeoutCopy countingWriter scriptReader d True ?\<sigma>) =
           Some (Return (1500, None))" by simp
qed

theorem eof_with_data_is_copied_witness:
  "internalTimeoutCopy countingWriter scriptReader 7 True
      \<lparr>src = [(1000, None), (0, None), (500, Some EOF)], dst = 0, trace = []\<rparr> =
   Some (Return (1500, None),
         \<lparr>src = [], dst = 1500,
            trace = [SrcRead chunkSize, TimerReset 7, DstWrite 1000, TimerStop,
                     SrcRead chunkSize,
                     SrcRead chunkSize, TimerReset 7, DstWrite 500, TimerStop]\<rparr>)"
proof -
  let ?\<sigma> = "\<lparr>src = [(1000, None), (0, None), (500, Some EOF)], dst = 0::nat, trace = []\<rparr>"
  have t: "transfers countingWriter scriptReader [1000, 0] (src ?\<sigma>, dst ?\<sigma>) =
      Some ([(500, Some EOF)], 1000)"
    by (simp add: chunkSize_def countingWriter_def)
  have r: "scriptReader [(500, Some EOF)] chunkSize = (Return (500, Some EOF), [])" by simp
  have w: "countingWriter 1000 (nat 500) = (Return (500, None), 1500)"
    by (simp add: countingWriter_def)
  have c: "(500::int) \<le> int chunkSize" by (simp add: chunkSize_def)
  have p: "(0::int) < 500" by simp
  from eof_with_data_is_copied [OF t r p c w, of 7 True]
  show ?thesis by (simp add: iteration_events_def)
qed

text \<open>
  Claim C10. In an iteration whose read returned data, whatever error \<open>er\<close> came with
  that data, even one other than \<^verbatim>\<open>io.EOF\<close>: when the write returns an error or a count
  different from the number of bytes offered, \<^verbatim>\<open>internalTimeoutCopy\<close> returns the error
  of the write if there is one and \<^verbatim>\<open>io.ErrShortWrite\<close> otherwise, never \<open>er\<close>, and the
  count includes the bytes the write reported.
\<close>

theorem write_fault_precedence:
  assumes "transfers wr rd ns (src \<sigma>, dst \<sigma>) = Some (r1, w1)"
    and "rd r1 chunkSize = (Return (nr, er), r2)" and "0 < nr" and "nr \<le> int chunkSize"
    and "wr w1 (nat nr) = (Return (nw, ew), w2)"
    and "ew \<noteq> None \<or> nw \<noteq> nr"
  shows "internalTimeoutCopy wr rd d writeTimeout \<sigma> =
     Some (Return (of_nat (sum_list ns) + (if 0 < nw then word_of_int nw else 0),
                   if ew \<noteq> None then ew else Some ErrShortWrite),
           \<sigma>\<lparr>src := r2, dst := w2,
               trace := trace \<sigma> @ transfer_events d writeTimeout ns @
                        iteration_events d writeTimeout nr\<rparr>)"
proof -
  from assms(6) have "ew \<noteq> None \<or> nr \<noteq> nw \<or> er \<noteq> None" by auto
  from internalTimeoutCopy_breaks_after [OF assms(1-5) this, of d writeTimeout] assms(6)
  show ?thesis by auto
qed

theorem write_fault_precedence_witness:
  "internalTimeoutCopy scriptWriter scriptReader 5 True
      \<lparr>src = [(8, None), (10, Some (OtherError ''connection reset''))],
       dst = [(8, None), (3, Some (OtherError ''disk full''))], trace = []\<rparr> =
   Some (Return (11, Some (OtherError ''disk full'')),
         \<lparr>src = [], dst = [],
            trace = [SrcRead chunkSize, TimerReset 5, DstWrite 8, TimerStop,
                     SrcRead chunkSize, TimerReset 5, DstWrite 10, TimerStop]\<rparr>) \<and>
   internalTimeoutCopy scriptWriter scriptReader 5 True
      \<lparr>src = [(8, None), (10, Some (OtherError ''connection reset''))],
       dst = [(8, None), (3, None)], trace = []\<rparr> =
   Some (Return (11, Some ErrShortWrite),
         \<lparr>src = [], dst = [],
            trace = [SrcRead chunkSize, TimerReset 5, DstWrite 8, TimerStop,
                     SrcRead chunkSize, TimerReset 5, DstWrite 10, TimerStop]\<rparr>)"
proof -
  let ?rs = "[(8, None), (10, Some (OtherError ''connection reset''))] :: io_result list"
  let ?\<sigma>1 = "\<lparr>src = ?rs, dst = [(8, None), (3, Some (OtherError ''disk full''))], trace = []\<rparr>
             :: (io_result list, io_result list) world"
  let ?\<sigma>2 = "\<lparr>src = ?rs, dst = [(8, None), (3, None)], trace = []\<rparr>
             :: (io_result list, io_result list) world"
  have t1: "transfers scriptWriter scriptReader [8] (src ?\<sigma>1, dst ?\<sigma>1) =
      Some ([(10, Some (OtherError ''connection reset''))], [(3, Some (OtherError ''disk full''))])"
    by (simp add: chunkSize_def)
  have t2: "transfers scriptWriter scriptReader [8] (src ?\<sigma>2, dst ?\<sigma>2) =
      Some ([(10, Some (OtherError ''connection reset''))], [(3, None)])"
    by (simp add: chunkSize_def)
  have r: "scriptReader [(10, Some (OtherError ''connection reset''))] chunkSize =
      (Return (10, Some (OtherError ''connection reset'')), [])" by simp
  have w1: "scriptWriter [(3, Some (OtherError ''disk full''))] (nat 10) =
      (Return (3, Some (OtherError ''disk full'')), [])" by simp
  have w2: "scriptWriter [(3, None)] (nat 10) = (Return (3, None), [])" by simp
  have c: "(10::int) \<le> int chunkSize" by (simp add: chunkSize_def)
  have p: "(0::int) < 10" by simp
  from write_fault_precedence [OF t1 r p c w1, of 5 True]
       write_fault_precedence [OF t2 r p c w2, of 5 True]
  show ?thesis by (simp add: iteration_events_def)
qed

section \<open>Properties of timeoutReader\<close>

text \<open>
  Claim C8. Whatever the wrapped reader returns (data, \<^verbatim>\<open>io.EOF\<close> or another error),
  \<^verbatim>\<open>timeoutReader.Read\<close> has stopped the timer, then called the wrapped reader with the
  same buffer, then reset the timer to the full duration, in this order and nothing
  else, and it returns the count and the error of the wrapped reader unchanged.
\<close>

theorem timeoutReader_Read_stop_read_reset:
  assumes "reader (src \<sigma>) p = (Return (nRead, err), r')"
  shows "timeoutReader_Read reader d p \<sigma> =
     (Return (nRead, err),
      \<sigma>\<lparr>src := r', trace := trace \<sigma> @ [TimerStop, SrcRead p, TimerReset d]\<rparr>)"
proof -
  let ?\<sigma>1 = "emit TimerStop \<sigma>"
  from assms have "reader (src ?\<sigma>1) p = (Return (nRead, err), r')" by (simp add: emit_def)
  from src_Read_eq [where rd = reader and \<sigma> = ?\<sigma>1, OF this]
  show ?thesis by (simp add: timeoutReader_Read_def emit_def)
qed

theorem timeoutReader_Read_stop_read_reset_witness:
  "timeoutReader_Read scriptReader 500 chunkSize
      \<lparr>src = [(1000, None)], dst = (), trace = [AfterFunc 500]\<rparr> =
     (Return (1000, None),
      \<lparr>src = [], dst = (), trace = [AfterFunc 500, TimerStop, SrcRead chunkSize, TimerReset 500]\<rparr>) \<and>
   timeoutReader_Read scriptReader 500 chunkSize
      \<lparr>src = [], dst = (), trace = [AfterFunc 500]\<rparr> =
     (Return (0, Some EOF),
      \<lparr>src = [], dst = (), trace = [AfterFunc 500, TimerStop, SrcRead chunkSize, TimerReset 500]\<rparr>) \<and>
   timeoutReader_Read scriptReader 500 chunkSize
      \<lparr>src = [(0, Some (OtherError ''connection reset''))], dst = (), trace = [AfterFunc 500]\<rparr> =
     (Return (0, Some (OtherError ''connection reset'')),
      \<lparr>src = [], dst = (), trace = [AfterFunc 500, TimerStop, SrcRead chunkSize, TimerReset 500]\<rparr>)"
proof -
  have a: "scriptReader (src \<lparr>src = [(1000, None)], dst = (), trace = [AfterFunc 500]\<rparr>) chunkSize =
      (Return (1000, None), [])" by simp
  have b: "scriptReader (src \<lparr>src = [], dst = (), trace = [AfterFunc 500]\<rparr>) chunkSize =
      (Return (0, Some EOF), [])" by simp
  have c: "scriptReader (src \<lparr>src = [(0, Some (OtherError ''connection reset''))], dst = (),
        trace = [AfterFunc 500]\<rparr>) chunkSize =
      (Return (0, Some (OtherError ''connection reset'')), [])" by simp
  from timeoutReader_Read_stop_read_reset [where reader = scriptReader, OF a, of 500]
       timeoutReader_Read_stop_read_reset [where reader = scriptReader, OF b, of 500]
       timeoutReader_Read_stop_read_reset [where reader = scriptReader, OF c, of 500]
  show ?thesis by simp
qed

section \<open>Properties of TimeoutCopy\<close>

lemma worker_step_agrees:
  assumes "worker_agrees wr rd d wt R w" and "worker_step wr rd d wt b w = Some w'"
  shows "worker_agrees wr rd d wt R w'"
proof (cases w)
  case (Copying written \<sigma>)
  obtain st \<sigma>' where it: "copy_iteration wr rd d wt written \<sigma> = (st, \<sigma>')"
    by (cases "copy_iteration wr rd d wt written \<sigma>")
  from assms(1) Copying have R: "copy_loop wr rd d wt written \<sigma> = R" by simp
  show ?thesis
  proof (cases st)
    case (Continue written')
    with it have "copy_loop wr rd d wt written \<sigma> = copy_loop wr rd d wt written' \<sigma>'"
      by (subst copy_loop.simps) simp
    with R assms(2) Copying it Continue show ?thesis by auto
  next
    case (Break written' err)
    with it have "copy_loop wr rd d wt written \<sigma> = Some (Return (written', err), \<sigma>')"
      by (subst copy_loop.simps) simp
    with R assms(2) Copying it Break show ?thesis by auto
  next
    case (Raise p)
    with it have "copy_loop wr rd d wt written \<sigma> = Some (Panic p, \<sigma>')"
      by (subst copy_loop.simps) simp
    with R assms(2) Copying it Raise show ?thesis by auto
  qed
next
  case (SendResult written err)
  with assms(2) show ?thesis by (auto split: if_splits)
next
  case (SendPanic p)
  with assms(2) show ?thesis by (auto split: if_splits)
next
  case Exited
  with assms(2) show ?thesis by simp
qed

lemma TimeoutCopy_step_agrees:
  assumes "worker_agrees wr rd d wt R (worker s)" and "caller_agrees R (caller s)"
    and "TimeoutCopy_step wr rd d wt a s = Some s'"
  shows "worker_agrees wr rd d wt R (worker s') \<and> caller_agrees R (caller s')"
proof (cases a)
  case WorkerStep
  with assms(3) obtain w' where
    w: "worker_step wr rd d wt (caller s \<noteq> Selecting) (worker s) = Some w'"
    and s': "s' = s\<lparr>worker := w'\<rparr>"
    by (auto split: option.splits)
  from worker_step_agrees [OF assms(1) w] s' assms(2) show ?thesis by simp
next
  case TimerFires
  with assms show ?thesis by (auto split: if_splits)
next
  case RecvPanic
  with assms show ?thesis by (auto split: caller.splits worker.splits)
next
  case RecvResult
  with assms show ?thesis by (auto split: caller.splits worker.splits)
next
  case RecvTimer
  with assms show ?thesis by (auto split: if_splits)
qed

lemma TimeoutCopy_run_agrees:
  "worker_agrees wr rd d wt R (worker s) \<Longrightarrow> caller_agrees R (caller s) \<Longrightarrow>
   TimeoutCopy_run wr rd d wt schedule s = Some s' \<Longrightarrow>
   worker_agrees wr rd d wt R (worker s') \<and> caller_agrees R (caller s')"
proof (induction schedule arbitrary: s)
  case Nil
  then show ?case by simp
next
  case (Cons a as)
  from Cons.prems(3) obtain s1 where st: "TimeoutCopy_step wr rd d wt a s = Some s1"
    and run: "TimeoutCopy_run wr rd d wt as s1 = Some s'"
    by (auto split: option.splits)
  from TimeoutCopy_step_agrees [OF Cons.prems(1,2) st]
  have "worker_agrees wr rd d wt R (worker s1)" and "caller_agrees R (caller s1)" by simp_all
  from Cons.IH [OF this run] show ?case .
qed

lemma TimeoutCopy_step_final:
  "caller s \<noteq> Selecting \<Longrightarrow> TimeoutCopy_step wr rd d wt a s = Some s' \<Longrightarrow> caller s' = caller s"
  by (cases a) (auto split: option.splits if_splits caller.splits)

lemma TimeoutCopy_run_final:
  "caller s \<noteq> Selecting \<Longrightarrow> TimeoutCopy_run wr rd d wt schedule s = Some s' \<Longrightarrow>
   caller s' = caller s"
proof (induction schedule arbitrary: s)
  case Nil
  then show ?case by simp
next
  case (Cons a as)
  from Cons.prems(2) obtain s1 where st: "TimeoutCopy_step wr rd d wt a s = Some s1"
    and run: "TimeoutCopy_run wr rd d wt as s1 = Some s'"
    by (auto split: option.splits)
  from TimeoutCopy_step_final [OF Cons.prems(1) st] have c: "caller s1 = caller s" .
  with Cons.prems(1) have "caller s1 \<noteq> Selecting" by simp
  from Cons.IH [OF this run] c show ?case by simp
qed

lemma TimeoutCopy_run_append:
  "TimeoutCopy_run wr rd d wt (as @ bs) s =
   (case TimeoutCopy_run wr rd d wt as s of
      None \<Rightarrow> None
    | Some s1 \<Rightarrow> TimeoutCopy_run wr rd d wt bs s1)"
  by (induction as arbitrary: s) (auto split: option.splits)

text \<open>
  Claim C7. Under every schedule, a call of \<^verbatim>\<open>TimeoutCopy\<close> that has left its \<^verbatim>\<open>select\<close> has
  done one of three things: returned the very pair \<^verbatim>\<open>internalTimeoutCopy\<close> returned,
  returned \<^verbatim>\<open>(0, ErrorCopyTimeout)\<close>, or panicked with the value \<^verbatim>\<open>internalTimeoutCopy\<close>
  panicked with. Whatever happens afterwards (the timer firing, the goroutine
  finishing) leaves this outcome as it is: no call has a result and a timeout. That
  the call leaves the \<^verbatim>\<open>select\<close> at all is not part of the statement; with the timer
  stopped and the unbounded side blocked it never does.
\<close>

theorem TimeoutCopy_one_outcome:
  assumes "TimeoutCopy wr rd d writeTimeout schedule \<sigma> = Some out" and "out \<noteq> Selecting"
  shows "((\<exists>written err. out = Returned written err \<and>
             map_option fst (internalTimeoutCopy wr rd d writeTimeout \<sigma>) =
               Some (Return (written, err))) \<or>
          out = Returned 0 (Some ErrorCopyTimeout) \<or>
          (\<exists>p. out = Panicked p \<and>
             map_option fst (internalTimeoutCopy wr rd d writeTimeout \<sigma>) = Some (Panic p))) \<and>
         (\<forall>more out'. TimeoutCopy wr rd d writeTimeout (schedule @ more) \<sigma> = Some out' \<longrightarrow>
             out' = out)"
proof -
  let ?R = "internalTimeoutCopy wr rd d writeTimeout \<sigma>"
  let ?s0 = "TimeoutCopy_init \<sigma>"
  from assms(1) obtain s where run: "TimeoutCopy_run wr rd d writeTimeout schedule ?s0 = Some s"
    and out: "out = caller s"
    by (auto simp: TimeoutCopy_def)
  have w0: "worker_agrees wr rd d writeTimeout ?R (worker ?s0)"
    by (simp add: TimeoutCopy_init_def internalTimeoutCopy_def)
  have c0: "caller_agrees ?R (caller ?s0)" by (simp add: TimeoutCopy_init_def)
  from TimeoutCopy_run_agrees [OF w0 c0 run] out have "caller_agrees ?R out" by simp
  with assms(2) have one:
    "(\<exists>written err. out = Returned written err \<and> map_option fst ?R = Some (Return (written, err))) \<or>
     out = Returned 0 (Some ErrorCopyTimeout) \<or>
     (\<exists>p. out = Panicked p \<and> map_option fst ?R = Some (Panic p))"
    by (cases out) auto
  have final: "out' = out"
    if "TimeoutCopy wr rd d writeTimeout (schedule @ more) \<sigma> = Some out'" for more out'
  proof -
    from that run obtain s' where "TimeoutCopy_run wr rd d writeTimeout more s = Some s'"
      and "out' = caller s'"
      by (auto simp: TimeoutCopy_def TimeoutCopy_run_append)
    with TimeoutCopy_run_final [of s wr rd d writeTimeout more s'] assms(2) out
    show ?thesis by simp
  qed
  from one final show ?thesis by blast
qed

lemma race_it1:
  "copy_iteration countingWriter scriptReader 5 False 0
     \<lparr>src = [(10, None), (20, None)], dst = 0, trace = []\<rparr> =
   (Continue 10, \<lparr>src = [(20, None)], dst = 10,
       trace = [TimerReset 5, SrcRead 65536, TimerStop, DstWrite 10]\<rparr>)"
  using copy_iteration_write [of scriptReader
      "\<lparr>src = [(10, None), (20, None)], dst = 0::nat, trace = []\<rparr>" 10 None "[(20, None)]"
      countingWriter 10 None 10 5 False 0]
  by (simp add: countingWriter_def chunkSize_def iteration_events_def)

lemma race_it2:
  "copy_iteration countingWriter scriptReader 5 False 10
     \<lparr>src = [(20, None)], dst = 10,
        trace = [TimerReset 5, SrcRead 65536, TimerStop, DstWrite 10]\<rparr> =
   (Continue 30, \<lparr>src = [], dst = 30,
       trace = [TimerReset 5, SrcRead 65536, TimerStop, DstWrite 10,
                TimerReset 5, SrcRead 65536, TimerStop, DstWrite 20]\<rparr>)"
  using copy_iteration_write [of scriptReader
      "\<lparr>src = [(20, None)], dst = 10::nat,
         trace = [TimerReset 5, SrcRead 65536, TimerStop, DstWrite 10]\<rparr>" 20 None "[]"
      countingWriter 20 None 30 5 False 10]
  by (simp add: countingWriter_def chunkSize_def iteration_events_def)

lemma race_it3:
  "copy_iteration countingWriter scriptReader 5 False 30
     \<lparr>src = [], dst = 30,
        trace = [TimerReset 5, SrcRead 65536, TimerStop, DstWrite 10,
                 TimerReset 5, SrcRead 65536, TimerStop, DstWrite 20]\<rparr> =
   (Break 30 None, \<lparr>src = [], dst = 30,
       trace = [TimerReset 5, SrcRead 65536, TimerStop, DstWrite 10,
                TimerReset 5, SrcRead 65536, TimerStop, DstWrite 20,
                TimerReset 5, SrcRead 65536, TimerStop]\<rparr>)"
  using copy_iteration_no_data [of scriptReader
      "\<lparr>src = [], dst = 30::nat,
         trace = [TimerReset 5, SrcRead 65536, TimerStop, DstWrite 10,
                  TimerReset 5, SrcRead 65536, TimerStop, DstWrite 20]\<rparr>" 0 "Some EOF" "[]"
      countingWriter 5 False 30]
  by (simp add: chunkSize_def iteration_events_def)

lemmas race_eval = TimeoutCopy_def TimeoutCopy_init_def race_it1 race_it2 race_it3

theorem TimeoutCopy_one_outcome_witness:
  "TimeoutCopy countingWriter scriptReader 5 False [WorkerStep, WorkerStep, WorkerStep, RecvResult]
      \<lparr>src = [(10, None), (20, None)], dst = 0, trace = []\<rparr> = Some (Returned 30 None) \<and>
   Returned 30 None \<noteq> Selecting \<and>
   map_option fst (internalTimeoutCopy countingWriter scriptReader 5 False
      \<lparr>src = [(10, None), (20, None)], dst = 0, trace = []\<rparr>) = Some (Return (30, None))"
proof -
  let ?\<sigma> = "\<lparr>src = [(10, None), (20, None)], dst = 0::nat, trace = []\<rparr>"
  let ?sch = "[WorkerStep, WorkerStep, WorkerStep, RecvResult]"
  have run: "TimeoutCopy countingWriter scriptReader 5 False ?sch ?\<sigma> = Some (Returned 30 None)"
    by (simp add: race_eval)
  have ne: "Returned 30 None \<noteq> Selecting" by simp
  note th = TimeoutCopy_one_outcome [OF run ne, THEN conjunct1]
  from th have "map_option fst (internalTimeoutCopy countingWriter scriptReader 5 False ?\<sigma>) =
      Some (Return (30, None))" by simp
  with run ne show ?thesis by (intro conjI)
qed

text \<open>
  Claim C6, as amended. Whenever the \<^verbatim>\<open>select\<close> of the caller takes the case of
  \<^verbatim>\<open>timer.C\<close>, at whatever point of whatever schedule and whatever the goroutine has
  counted by then, the call returns \<^verbatim>\<open>(0, ErrorCopyTimeout)\<close>, and nothing the abandoned
  goroutine or the timer does afterwards changes that; the case can only be taken when
  the timer has fired and the caller has not returned. While the timer has fired and
  the goroutine is still inside the copy loop, this is the one case of the \<^verbatim>\<open>select\<close>
  that is ready. That the timer fired before the goroutine delivered does not decide
  the outcome by itself: see the schedule after the witness.
\<close>

theorem select_timer_case_returns_timeout:
  assumes "TimeoutCopy wr rd d writeTimeout (pre @ RecvTimer # post) \<sigma> = Some out"
  shows "out = Returned 0 (Some ErrorCopyTimeout) \<and>
         (\<exists>s. TimeoutCopy_run wr rd d writeTimeout pre (TimeoutCopy_init \<sigma>) = Some s \<and>
              caller s = Selecting \<and> timerC s) \<and>
         (\<forall>s written \<sigma>'.
             caller s = Selecting \<and> timerC s \<and> worker s = Copying written \<sigma>' \<longrightarrow>
             TimeoutCopy_step wr rd d writeTimeout RecvPanic s = None \<and>
             TimeoutCopy_step wr rd d writeTimeout RecvResult s = None \<and>
             TimeoutCopy_step wr rd d writeTimeout RecvTimer s =
               Some (s\<lparr>timerC := False, caller := Returned 0 (Some ErrorCopyTimeout)\<rparr>))"
proof -
  let ?s0 = "TimeoutCopy_init \<sigma>"
  from assms obtain s' where
    run: "TimeoutCopy_run wr rd d writeTimeout (pre @ RecvTimer # post) ?s0 = Some s'"
    and out: "out = caller s'"
    by (auto simp: TimeoutCopy_def)
  from run obtain s1 where
    pre: "TimeoutCopy_run wr rd d writeTimeout pre ?s0 = Some s1"
    and rest: "TimeoutCopy_run wr rd d writeTimeout (RecvTimer # post) s1 = Some s'"
    by (auto simp: TimeoutCopy_run_append split: option.splits)
  from rest obtain s2 where
    step: "TimeoutCopy_step wr rd d writeTimeout RecvTimer s1 = Some s2"
    and post: "TimeoutCopy_run wr rd d writeTimeout post s2 = Some s'"
    by (auto split: option.splits)
  from step have sel: "caller s1 = Selecting" and fired: "timerC s1"
    and c2: "caller s2 = Returned 0 (Some ErrorCopyTimeout)"
    by (auto split: if_splits)
  from c2 have "caller s2 \<noteq> Selecting" by simp
  from TimeoutCopy_run_final [OF this post] c2 out
  have 1: "out = Returned 0 (Some ErrorCopyTimeout)" by simp
  from pre sel fired
  have 2: "\<exists>s. TimeoutCopy_run wr rd d writeTimeout pre ?s0 = Some s \<and>
              caller s = Selecting \<and> timerC s" by blast
  have 3: "\<forall>s written \<sigma>'.
             caller s = Selecting \<and> timerC s \<and> worker s = Copying written \<sigma>' \<longrightarrow>
             TimeoutCopy_step wr rd d writeTimeout RecvPanic s = None \<and>
             TimeoutCopy_step wr rd d writeTimeout RecvResult s = None \<and>
             TimeoutCopy_step wr rd d writeTimeout RecvTimer s =
               Some (s\<lparr>timerC := False, caller := Returned 0 (Some ErrorCopyTimeout)\<rparr>)"
    by simp
  from 1 2 3 show ?thesis by (intro conjI)
qed

theorem select_timer_case_returns_timeout_witness:
  "TimeoutCopy_run countingWriter scriptReader 5 False [WorkerStep, TimerFires]
      (TimeoutCopy_init \<lparr>src = [(10, None), (20, None)], dst = 0, trace = []\<rparr>) =
     Some \<lparr>worker = Copying 10 \<lparr>src = [(20, None)], dst = 10,
                trace = [TimerReset 5, SrcRead 65536, TimerStop, DstWrite 10]\<rparr>,
           timerC = True, caller = Selecting\<rparr> \<and>
   TimeoutCopy countingWriter scriptReader 5 False
      ([WorkerStep, TimerFires] @ RecvTimer # [WorkerStep, WorkerStep, WorkerStep])
      \<lparr>src = [(10, None), (20, None)], dst = 0, trace = []\<rparr> =
     Some (Returned 0 (Some ErrorCopyTimeout))"
proof -
  let ?\<sigma> = "\<lparr>src = [(10, None), (20, None)], dst = 0::nat, trace = []\<rparr>"
  let ?\<sigma>1 = "\<lparr>src = [(20, None)], dst = 10::nat,
                trace = [TimerReset 5, SrcRead 65536, TimerStop, DstWrite 10]\<rparr>"
  let ?s = "\<lparr>worker = Copying 10 ?\<sigma>1, timerC = True, caller = Selecting\<rparr>"
  have pre: "TimeoutCopy_run countingWriter scriptReader 5 False [WorkerStep, TimerFires]
      (TimeoutCopy_init ?\<sigma>) = Some ?s"
    by (simp add: race_eval)
  have "TimeoutCopy countingWriter scriptReader 5 False
      ([WorkerStep, TimerFires] @ RecvTimer # [WorkerStep, WorkerStep, WorkerStep]) ?\<sigma> \<noteq> None"
    by (simp add: race_eval)
  then obtain out where run: "TimeoutCopy countingWriter scriptReader 5 False
      ([WorkerStep, TimerFires] @ RecvTimer # [WorkerStep, WorkerStep, WorkerStep]) ?\<sigma> = Some out"
    by blast
  from select_timer_case_returns_timeout [OF run, THEN conjunct1] run
  have "TimeoutCopy countingWriter scriptReader 5 False
      ([WorkerStep, TimerFires] @ RecvTimer # [WorkerStep, WorkerStep, WorkerStep]) ?\<sigma> =
      Some (Returned 0 (Some ErrorCopyTimeout))" by simp
  with pre show ?thesis by (intro conjI)
qed

text \<open>
  The claim as it was stated, with the timeout returned whenever the timer fires before
  the goroutine delivers, fails. After the first chunk (10 bytes) the timer fires; the
  caller's \<^verbatim>\<open>select\<close> does not run yet; the goroutine copies the remaining 20 bytes,
  reaches the end of data and offers its result; both cases are now ready and the
  \<^verbatim>\<open>select\<close> takes the result: the call returns \<^verbatim>\<open>(30, nil)\<close>.
\<close>

theorem timer_fired_first_counterexample:
  "TimeoutCopy_run countingWriter scriptReader 5 False [WorkerStep, TimerFires]
      (TimeoutCopy_init \<lparr>src = [(10, None), (20, None)], dst = 0, trace = []\<rparr>) =
     Some \<lparr>worker = Copying 10 \<lparr>src = [(20, None)], dst = 10,
                trace = [TimerReset 5, SrcRead 65536, TimerStop, DstWrite 10]\<rparr>,
           timerC = True, caller = Selecting\<rparr> \<and>
   TimeoutCopy countingWriter scriptReader 5 False
      [WorkerStep, TimerFires, WorkerStep, WorkerStep, RecvResult]
      \<lparr>src = [(10, None), (20, None)], dst = 0, trace = []\<rparr> =
     Some (Returned 30 None) \<and>
   Returned 30 None \<noteq> Returned 0 (Some ErrorCopyTimeout)"
  by (simp add: race_eval)

section \<open>Properties of strconv.ParseInt\<close>

text \<open>
  The digit loop of \<^verbatim>\<open>ParseUint\<close> computes the decimal value as long as it fits 64 bits
  and reports a range error as soon as it does not; \<^verbatim>\<open>ParseInt\<close> accepts exactly the
  strings \<open>int64_decimal\<close> accepts, with the value it gives.
\<close>

lemma cutoff_val: "maxUint64 div 10 + 1 = (1844674407370955162 :: 64 word)"
  unfolding maxUint64_def by code_simp

lemma unat_cutoff: "unat (1844674407370955162 :: 64 word) = 1844674407370955162"
  by simp

lemma p64: "(2::nat) ^ 64 = 18446744073709551616" by simp

lemma digit_step:
  fixes n :: "64 word"
  assumes "dg < 10" and "unat n * 10 + dg < 2 ^ 64"
  shows "\<not> (maxUint64 div 10 + 1 \<le> n)"
    and "unat (n * 10 + of_nat dg) = unat n * 10 + dg"
    and "\<not> (n * 10 + of_nat dg < n * 10)"
    and "\<not> (n * 10 + of_nat dg > maxUint64)"
proof -
  from assms have a: "unat n * 10 + dg < 18446744073709551616" by simp
  show "\<not> (maxUint64 div 10 + 1 \<le> n)"
    unfolding cutoff_val word_le_nat_alt unat_cutoff using a by arith
  have m: "unat (n * 10) = unat n * 10"
    using a by (simp add: unat_word_ariths)
  have d: "unat (of_nat dg :: 64 word) = dg" using assms(1) by (simp add: unat_of_nat)
  show s: "unat (n * 10 + of_nat dg) = unat n * 10 + dg"
    using a m d by (simp add: unat_word_ariths)
  show "\<not> (n * 10 + of_nat dg < n * 10)"
    unfolding word_less_nat_alt s m by simp
  show "\<not> (n * 10 + of_nat dg > maxUint64)"
    unfolding maxUint64_def word_less_nat_alt s using a by simp
qed

lemma digit_step_overflow:
  fixes n :: "64 word"
  assumes "dg < 10" and "2 ^ 64 \<le> unat n * 10 + dg"
  shows "maxUint64 div 10 + 1 \<le> n \<or> n * 10 + of_nat dg < n * 10"
proof (cases "maxUint64 div 10 + 1 \<le> n")
  case True
  then show ?thesis by simp
next
  case False
  then have b: "unat n < 1844674407370955162"
    unfolding cutoff_val word_le_nat_alt unat_cutoff by simp
  from assms have a: "18446744073709551616 \<le> unat n * 10 + dg" by simp
  have m: "unat (n * 10) = unat n * 10"
    using b by (simp add: unat_word_ariths)
  have d: "unat (of_nat dg :: 64 word) = dg" using assms(1) by (simp add: unat_of_nat)
  have "unat (n * 10 + of_nat dg) = (unat n * 10 + dg) mod 2 ^ 64"
    using m d by (simp add: unat_word_ariths)
  also have "\<dots> = unat n * 10 + dg - 2 ^ 64"
    using a b assms(1) by (simp add: mod_if)
  finally have "unat (n * 10 + of_nat dg) < unat (n * 10)"
    using a b assms(1) m by simp
  then show ?thesis by (simp add: word_less_nat_alt)
qed

lemma ParseUint_digits_value:
  "list_all is_digit cs \<Longrightarrow> unat n * 10 ^ length cs + decimal cs < 2 ^ 64 \<Longrightarrow>
   ParseUint_digits n cs = (of_nat (unat n * 10 ^ length cs + decimal cs), None)"
proof (induction cs arbitrary: n)
  case Nil
  then show ?case by simp
next
  case (Cons c cs)
  let ?dg = "of_char c - 48 :: nat"
  from Cons.prems(1) have "is_digit c" and rest: "list_all is_digit cs" by simp_all
  then have dig: "48 \<le> (of_char c :: nat)" "(of_char c :: nat) \<le> 57"
    by (simp_all add: is_digit_def)
  then have dg: "?dg < 10" by arith
  have split: "unat n * 10 ^ length (c # cs) + decimal (c # cs) =
      (unat n * 10 + ?dg) * 10 ^ length cs + decimal cs"
    by (simp add: algebra_simps)
  with Cons.prems(2) have bound: "(unat n * 10 + ?dg) * 10 ^ length cs + decimal cs < 2 ^ 64"
    by simp
  have "unat n * 10 + ?dg \<le> (unat n * 10 + ?dg) * 10 ^ length cs" by simp
  with bound have small: "unat n * 10 + ?dg < 2 ^ 64" by linarith
  note st = digit_step [OF dg small]
  from bound st(2) have "unat (n * 10 + of_nat ?dg) * 10 ^ length cs + decimal cs < 2 ^ 64"
    by simp
  from Cons.IH [OF rest this] st(2)
  have "ParseUint_digits (n * 10 + of_nat ?dg) cs =
      (of_nat ((unat n * 10 + ?dg) * 10 ^ length cs + decimal cs), None)" by simp
  with dig st(1,3,4) split show ?case
    by (simp add: Let_def del: decimal.simps of_nat_add of_nat_mult)
qed

lemma ParseUint_digits_overflow:
  "list_all is_digit cs \<Longrightarrow> 2 ^ 64 \<le> unat n * 10 ^ length cs + decimal cs \<Longrightarrow>
   ParseUint_digits n cs = (maxUint64, Some ErrRange)"
proof (induction cs arbitrary: n)
  case Nil
  have "unat n < 2 ^ 64" using unsigned_less [of n] by simp
  with Nil show ?case by simp
next
  case (Cons c cs)
  let ?dg = "of_char c - 48 :: nat"
  from Cons.prems(1) have "is_digit c" and rest: "list_all is_digit cs" by simp_all
  then have dig: "48 \<le> (of_char c :: nat)" "(of_char c :: nat) \<le> 57"
    by (simp_all add: is_digit_def)
  then have dg: "?dg < 10" by arith
  have split: "unat n * 10 ^ length (c # cs) + decimal (c # cs) =
      (unat n * 10 + ?dg) * 10 ^ length cs + decimal cs"
    by (simp add: algebra_simps)
  with Cons.prems(2) have bound: "2 ^ 64 \<le> (unat n * 10 + ?dg) * 10 ^ length cs + decimal cs"
    by simp
  show ?case
  proof (cases "unat n * 10 + ?dg < 2 ^ 64")
    case True
    note st = digit_step [OF dg True]
    from bound st(2) have "2 ^ 64 \<le> unat (n * 10 + of_nat ?dg) * 10 ^ length cs + decimal cs"
      by simp
    from Cons.IH [OF rest this] dig st(1,3,4) show ?thesis
      by (simp add: Let_def)
  next
    case False
    then have "2 ^ 64 \<le> unat n * 10 + ?dg" by simp
    from digit_step_overflow [OF dg this] dig show ?thesis
      by (auto simp add: Let_def)
  qed
qed

lemma ParseUint_digits_syntax:
  "\<not> list_all is_digit cs \<Longrightarrow>
   ParseUint_digits n cs = (0, Some ErrSyntax) \<or> ParseUint_digits n cs = (maxUint64, Some ErrRange)"
proof (induction cs arbitrary: n)
  case Nil
  then show ?case by simp
next
  case (Cons c cs)
  show ?case
  proof (cases "is_digit c")
    case False
    then show ?thesis by (simp add: is_digit_def)
  next
    case True
    with Cons.prems have "\<not> list_all is_digit cs" by simp
    from Cons.IH [OF this] True show ?thesis
      by (auto simp add: is_digit_def Let_def)
  qed
qed

lemma unat_2p63: "unat (2 ^ 63 :: 64 word) = 2 ^ 63" by simp

lemma unat_maxUint64: "unat maxUint64 = 2 ^ 64 - 1" by (simp add: maxUint64_def)

lemma unat_of_nat_64: "k < 2 ^ 64 \<Longrightarrow> unat (of_nat k :: 64 word) = k"
  by (simp add: unat_of_nat)

lemma ParseInt_Cons:
  "ParseInt (c # cs) =
     signed_result (c # cs) (c = CHR ''-'')
       (ParseUint (if c = CHR ''+'' \<or> c = CHR ''-'' then cs else c # cs))"
  by (simp add: ParseInt_def signed_result_def Let_def split: prod.splits)

lemma signed_result_syntax:
  "\<exists>x k. signed_result s0 neg (0, Some ErrSyntax) = (x, Some (NumError ''ParseInt'' s0 k))"
  by (simp add: signed_result_def)

lemma signed_result_range:
  "\<exists>x k. signed_result s0 neg (maxUint64, Some ErrRange) = (x, Some (NumError ''ParseInt'' s0 k))"
proof -
  have a: "(2 ^ 63 :: 64 word) \<le> maxUint64"
    by (simp add: word_le_nat_alt unat_maxUint64)
  have b: "(2 ^ 63 :: 64 word) < maxUint64"
    by (simp add: word_less_nat_alt unat_maxUint64)
  show ?thesis using a b by (cases neg) (simp_all add: signed_result_def)
qed

lemma signed_result_value:
  assumes "k < 2 ^ 64"
  shows "signed_result s0 neg (of_nat k, None) =
     (if \<not> neg \<and> 2 ^ 63 \<le> k then (2 ^ 63 - 1, Some (NumError ''ParseInt'' s0 ErrRange))
      else if neg \<and> 2 ^ 63 < k then (- (2 ^ 63), Some (NumError ''ParseInt'' s0 ErrRange))
      else (if neg then word_of_int (- int k) else word_of_int (int k), None))"
proof -
  have le: "((2 ^ 63 :: 64 word) \<le> of_nat k) = (2 ^ 63 \<le> k)"
    using assms by (simp add: word_le_nat_alt unat_of_nat_64)
  have less: "((2 ^ 63 :: 64 word) < of_nat k) = (2 ^ 63 < k)"
    using assms by (simp add: word_less_nat_alt unat_of_nat_64)
  show ?thesis
    unfolding signed_result_def prod.case le less by simp
qed

lemma ParseUint_accepts:
  "ds \<noteq> [] \<Longrightarrow> list_all is_digit ds \<Longrightarrow> decimal ds < 2 ^ 64 \<Longrightarrow>
   ParseUint ds = (of_nat (decimal ds), None)"
  using ParseUint_digits_value [of ds 0] by (simp add: ParseUint_def)

lemma ParseUint_rejects:
  "ds = [] \<or> \<not> list_all is_digit ds \<or> 2 ^ 64 \<le> decimal ds \<Longrightarrow>
   ParseUint ds = (0, Some ErrSyntax) \<or> ParseUint ds = (maxUint64, Some ErrRange)"
  using ParseUint_digits_syntax [of ds 0] ParseUint_digits_overflow [of ds 0]
  by (cases "ds = []"; cases "list_all is_digit ds") (auto simp add: ParseUint_def)

lemma ParseInt_valid:
  assumes "int64_decimal s = Some v"
  shows "ParseInt s = (word_of_int v, None)"
proof (cases s)
  case Nil
  with assms show ?thesis by (simp add: int64_decimal_def)
next
  case (Cons c cs)
  let ?ds = "if c = CHR ''+'' \<or> c = CHR ''-'' then cs else c # cs"
  from assms Cons have ne: "?ds \<noteq> []" and dig: "list_all is_digit ?ds"
    and v: "v = (if c = CHR ''-'' then - int (decimal ?ds) else int (decimal ?ds))"
    and r: "if c = CHR ''-'' then decimal ?ds \<le> 2 ^ 63 else decimal ?ds < 2 ^ 63"
    by (auto simp add: int64_decimal_def Let_def split: if_splits)
  from r have small: "decimal ?ds < 2 ^ 64" by (auto split: if_splits)
  from ParseUint_accepts [OF ne dig small] signed_result_value [OF small, of "c # cs" "c = CHR ''-''"] r v
  show ?thesis unfolding Cons ParseInt_Cons by (auto split: if_splits)
qed

lemma ParseInt_invalid:
  assumes "int64_decimal s = None"
  shows "\<exists>x k. ParseInt s = (x, Some (NumError ''ParseInt'' s k))"
proof (cases s)
  case Nil
  then show ?thesis by (simp add: ParseInt_def)
next
  case (Cons c cs)
  let ?ds = "if c = CHR ''+'' \<or> c = CHR ''-'' then cs else c # cs"
  let ?neg = "c = CHR ''-''"
  show ?thesis
  proof (cases "?ds = [] \<or> \<not> list_all is_digit ?ds \<or> 2 ^ 64 \<le> decimal ?ds")
    case True
    from ParseUint_rejects [OF True]
      signed_result_syntax [of "c # cs" ?neg] signed_result_range [of "c # cs" ?neg]
    show ?thesis unfolding Cons ParseInt_Cons by auto
  next
    case False
    then have ne: "?ds \<noteq> []" and dig: "list_all is_digit ?ds" and small: "decimal ?ds < 2 ^ 64"
      by auto
    from assms Cons ne dig have r: "if ?neg then 2 ^ 63 < decimal ?ds else 2 ^ 63 \<le> decimal ?ds"
      by (auto simp add: int64_decimal_def Let_def split: if_splits)
    from ParseUint_accepts [OF ne dig small] signed_result_value [OF small, of "c # cs" ?neg] r
    show ?thesis unfolding Cons ParseInt_Cons by (auto split: if_splits)
  qed
qed

lemma int_less_2p63: "(n::nat) < 2 ^ 63 \<Longrightarrow> int n < 2 ^ 63"
  by (metis of_nat_less_iff of_nat_numeral of_nat_power)

lemma int_le_2p63: "(n::nat) \<le> 2 ^ 63 \<Longrightarrow> int n \<le> 2 ^ 63"
  by (metis of_nat_le_iff of_nat_numeral of_nat_power)

lemma int64_decimal_range:
  assumes "int64_decimal s = Some v"
  shows "- (2 ^ 63) \<le> v \<and> v < 2 ^ 63"
proof -
  from assms obtain n where
    "(v = int n \<and> n < 2 ^ 63) \<or> (v = - int n \<and> n \<le> 2 ^ 63)"
    by (cases s) (auto simp add: int64_decimal_def Let_def simp del: decimal.simps split: if_splits)
  then show ?thesis
  proof
    assume "v = int n \<and> n < 2 ^ 63"
    with int_less_2p63 [of n] show ?thesis by simp
  next
    assume "v = - int n \<and> n \<le> 2 ^ 63"
    with int_le_2p63 [of n] show ?thesis by simp
  qed
qed

lemma sint_word_of_int_64:
  "- (2 ^ 63) \<le> v \<Longrightarrow> v < 2 ^ 63 \<Longrightarrow> sint (word_of_int v :: 64 word) = v"
  by (simp add: sint_sbintrunc' signed_take_bit_int_eq_self)
section \<open>Properties of DoRequest\<close>

lemma DoRequest_after_copy:
  assumes "NewRequest e verb urlString
             (wrap_requestBody (new_timer (apply_opts opts)) (apply_opts opts) requestBody) = Inr req0"
    and "client_Do e (modify_request (apply_opts opts) req0) = (Some r, None)"
    and "copy_body e (new_timer (apply_opts opts)) (apply_opts opts)
           \<lparr>src = Body r, dst = w,
              trace = (case new_timer (apply_opts opts) of
                         Some d \<Rightarrow> [AfterFunc d, TimerStop] | None \<Rightarrow> [])\<rparr> =
         Some (Return (nWritten, None), \<sigma>)"
  shows "DoRequest e verb urlString requestBody (Some w) opts =
     Some (Return (Some (r\<lparr>Body := src \<sigma>\<rparr>),
                   check_length (modify_request (apply_opts opts) req0) (r\<lparr>Body := src \<sigma>\<rparr>) nWritten),
           Some (dst \<sigma>), trace \<sigma> @ [BodyClose, CtxCancel])"
proof (cases "new_timer (apply_opts opts)")
  case None
  with assms show ?thesis by (simp add: DoRequest_def Let_def)
next
  case (Some d)
  with assms show ?thesis by (simp add: DoRequest_def Let_def)
qed

lemma check_length_eq:
  assumes "Method req \<noteq> MethodHead"
  shows "check_length req (r\<lparr>Body := b\<rparr>) nWritten =
     (if Header_Get (ResponseHeader r) ''Content-Length'' = [] then None
      else (case ParseInt (Header_Get (ResponseHeader r) ''Content-Length'') of
              (n, None) \<Rightarrow> if n \<noteq> nWritten then Some ErrUnexpectedEOF else None
            | (n, Some pe) \<Rightarrow> Some pe))"
  using assms by (auto simp add: check_length_def Let_def split: prod.splits option.splits)

lemma example_copy:
  "internalTimeoutCopy countingWriter scriptReader 5 False
      \<lparr>src = [(1000, None), (500, None)], dst = 0, trace = [AfterFunc 5, TimerStop]\<rparr> =
   Some (Return (1500, None),
         \<lparr>src = [], dst = 1500,
            trace = [AfterFunc 5, TimerStop,
                     TimerReset 5, SrcRead 65536, TimerStop, DstWrite 1000,
                     TimerReset 5, SrcRead 65536, TimerStop, DstWrite 500,
                     TimerReset 5, SrcRead 65536, TimerStop]\<rparr>)"
proof -
  let ?\<sigma> = "\<lparr>src = [(1000, None), (500, None)], dst = 0::nat, trace = [AfterFunc 5, TimerStop]\<rparr>"
  have t: "transfers countingWriter scriptReader [1000, 500] (src ?\<sigma>, dst ?\<sigma>) = Some ([], 1500)"
    by (simp add: chunkSize_def countingWriter_def)
  have r: "scriptReader [] chunkSize = (Return (0, Some EOF), [])" by simp
  from internalTimeoutCopy_ends_after [OF t r, of 5 False]
  show ?thesis by (simp add: iteration_events_def chunkSize_def)
qed

lemmas example_simps =
  example_env_def apply_opts_def new_timer_def wrap_requestBody_def modify_request_def
  Timeout_def RequestMod_def copy_body_def Header_Get_def MethodHead_def example_copy

lemma ParseInt_1500: "ParseInt ''1500'' = (1500, None)" by code_simp
lemma ParseInt_1499: "ParseInt ''1499'' = (1499, None)" by code_simp
lemma ParseInt_minus_1: "ParseInt ''-1'' = (- 1, None)" by code_simp

lemma ParseInt_12a: "ParseInt ''12a'' = (0, Some (NumError ''ParseInt'' ''12a'' ErrSyntax))"
  by code_simp

lemma int64_decimal_minus_1: "int64_decimal ''-1'' = Some (- 1)"
  by (simp add: int64_decimal_def is_digit_def)

text \<open>
  Claim C4. \<^verbatim>\<open>DoRequest\<close> is called with a response sink, the request is built, the
  transport returns a response and no error, the copy of the body (whichever of the two
  copies it is) returns \<open>nWritten\<close> and no error, and the method of the request is not
  \<^verbatim>\<open>HEAD\<close>. Let \<open>cl\<close> be the value of the header \<^verbatim>\<open>Content-Length\<close>. If \<open>cl\<close> parses to
  \<open>nWritten\<close>, the error returned is \<^verbatim>\<open>nil\<close>; if it parses to another number, it is
  \<^verbatim>\<open>io.ErrUnexpectedEOF\<close>; if there is no value (or an empty one), it is \<^verbatim>\<open>nil\<close> whatever
  \<open>nWritten\<close> is. In each case the response is returned with it.
\<close>

theorem DoRequest_checks_Content_Length:
  fixes e :: "('q, 'r, 'w) env"
    and opts :: "('q config \<Rightarrow> 'q config) list"
    and req0 :: "'q Request"
    and r :: "'r Response"
  defines "conf \<equiv> apply_opts opts"
  defines "timer \<equiv> new_timer conf"
  defines "req \<equiv> modify_request conf req0"
  defines "cl \<equiv> Header_Get (ResponseHeader r) ''Content-Length''"
  assumes "NewRequest e verb urlString (wrap_requestBody timer conf requestBody) = Inr req0"
    and "client_Do e req = (Some r, None)"
    and "copy_body e timer conf
           \<lparr>src = Body r, dst = w,
              trace = (case timer of Some d \<Rightarrow> [AfterFunc d, TimerStop] | None \<Rightarrow> [])\<rparr> =
         Some (Return (nWritten, None), \<sigma>)"
    and "Method req \<noteq> MethodHead"
  shows "(cl \<noteq> [] \<and> ParseInt cl = (nWritten, None) \<longrightarrow>
            DoRequest e verb urlString requestBody (Some w) opts =
              Some (Return (Some (r\<lparr>Body := src \<sigma>\<rparr>), None),
                    Some (dst \<sigma>), trace \<sigma> @ [BodyClose, CtxCancel])) \<and>
         (\<forall>n. cl \<noteq> [] \<and> ParseInt cl = (n, None) \<and> n \<noteq> nWritten \<longrightarrow>
            DoRequest e verb urlString requestBody (Some w) opts =
              Some (Return (Some (r\<lparr>Body := src \<sigma>\<rparr>), Some ErrUnexpectedEOF),
                    Some (dst \<sigma>), trace \<sigma> @ [BodyClose, CtxCancel])) \<and>
         (cl = [] \<longrightarrow>
            DoRequest e verb urlString requestBody (Some w) opts =
              Some (Return (Some (r\<lparr>Body := src \<sigma>\<rparr>), None),
                    Some (dst \<sigma>), trace \<sigma> @ [BodyClose, CtxCancel]))"
proof -
  note run = DoRequest_after_copy [OF assms(5-7) [unfolded conf_def timer_def req_def]]
  note chk = check_length_eq [where r = r and b = "src \<sigma>" and nWritten = nWritten,
      OF assms(8) [unfolded req_def conf_def]]
  show ?thesis
    unfolding run chk cl_def by simp
qed

theorem DoRequest_checks_Content_Length_witness:
  "DoRequest (example_env [''Content-Length'' \<mapsto> [''1500'']]) ''GET'' ''http://example.org/'' None (Some 0)
      [Timeout 5] =
     Some (Return (Some \<lparr>StatusCode = 200, ResponseHeader = [''Content-Length'' \<mapsto> [''1500'']],
                          Body = []\<rparr>, None),
           Some 1500,
           [AfterFunc 5, TimerStop,
            TimerReset 5, SrcRead 65536, TimerStop, DstWrite 1000,
            TimerReset 5, SrcRead 65536, TimerStop, DstWrite 500,
            TimerReset 5, SrcRead 65536, TimerStop, BodyClose, CtxCancel]) \<and>
   DoRequest (example_env [''Content-Length'' \<mapsto> [''1499'']]) ''GET'' ''http://example.org/'' None (Some 0)
      [Timeout 5] =
     Some (Return (Some \<lparr>StatusCode = 200, ResponseHeader = [''Content-Length'' \<mapsto> [''1499'']],
                          Body = []\<rparr>, Some ErrUnexpectedEOF),
           Some 1500,
           [AfterFunc 5, TimerStop,
            TimerReset 5, SrcRead 65536, TimerStop, DstWrite 1000,
            TimerReset 5, SrcRead 65536, TimerStop, DstWrite 500,
            TimerReset 5, SrcRead 65536, TimerStop, BodyClose, CtxCancel]) \<and>
   DoRequest (example_env Map.empty) ''GET'' ''http://example.org/'' None (Some 0)
      [Timeout 5] =
     Some (Return (Some \<lparr>StatusCode = 200, ResponseHeader = Map.empty, Body = []\<rparr>, None),
           Some 1500,
           [AfterFunc 5, TimerStop,
            TimerReset 5, SrcRead 65536, TimerStop, DstWrite 1000,
            TimerReset 5, SrcRead 65536, TimerStop, DstWrite 500,
            TimerReset 5, SrcRead 65536, TimerStop, BodyClose, CtxCancel])"
proof -
  let ?req = "\<lparr>Method = ''GET'', URL = ''http://example.org/'', RequestBody = None\<rparr> :: unit Request"
  let ?\<sigma> = "\<lparr>src = [], dst = 1500::nat,
             trace = [AfterFunc 5, TimerStop,
                     TimerReset 5, SrcRead 65536, TimerStop, DstWrite 1000,
                     TimerReset 5, SrcRead 65536, TimerStop, DstWrite 500,
                     TimerReset 5, SrcRead 65536, TimerStop]\<rparr> :: (io_result list, nat) world"
  note th = DoRequest_checks_Content_Length
    [where opts = "[Timeout 5]" and verb = "''GET''" and urlString = "''http://example.org/''"
       and requestBody = None and ?req0.0 = ?req and w = 0 and nWritten = 1500 and \<sigma> = ?\<sigma>]
  from th [where e = "example_env [''Content-Length'' \<mapsto> [''1500'']]"
             and r = "\<lparr>StatusCode = 200, ResponseHeader = [''Content-Length'' \<mapsto> [''1500'']],
                        Body = [(1000, None), (500, None)]\<rparr>"]
  have a: "DoRequest (example_env [''Content-Length'' \<mapsto> [''1500'']]) ''GET'' ''http://example.org/''
      None (Some 0) [Timeout 5] =
     Some (Return (Some \<lparr>StatusCode = 200, ResponseHeader = [''Content-Length'' \<mapsto> [''1500'']],
                          Body = []\<rparr>, None), Some 1500, trace ?\<sigma> @ [BodyClose, CtxCancel])"
    by (simp add: example_simps ParseInt_1500)
  from th [where e = "example_env [''Content-Length'' \<mapsto> [''1499'']]"
             and r = "\<lparr>StatusCode = 200, ResponseHeader = [''Content-Length'' \<mapsto> [''1499'']],
                        Body = [(1000, None), (500, None)]\<rparr>"]
  have b: "DoRequest (example_env [''Content-Length'' \<mapsto> [''1499'']]) ''GET'' ''http://example.org/''
      None (Some 0) [Timeout 5] =
     Some (Return (Some \<lparr>StatusCode = 200, ResponseHeader = [''Content-Length'' \<mapsto> [''1499'']],
                          Body = []\<rparr>, Some ErrUnexpectedEOF), Some 1500,
           trace ?\<sigma> @ [BodyClose, CtxCancel])"
    by (simp add: example_simps ParseInt_1499)
  from th [where e = "example_env Map.empty"
             and r = "\<lparr>StatusCode = 200, ResponseHeader = Map.empty,
                        Body = [(1000, None), (500, None)]\<rparr>"]
  have c: "DoRequest (example_env Map.empty) ''GET'' ''http://example.org/''
      None (Some 0) [Timeout 5] =
     Some (Return (Some \<lparr>StatusCode = 200, ResponseHeader = Map.empty,
                          Body = []\<rparr>, None), Some 1500, trace ?\<sigma> @ [BodyClose, CtxCancel])"
    by (simp add: example_simps)
  from a b c show ?thesis by simp
qed

text \<open>
  Claim C5, as amended. Under the same conditions and with a value \<open>cl\<close> of the header:
  an error of \<^verbatim>\<open>strconv.ParseInt\<close> is returned as it is; \<^verbatim>\<open>ParseInt\<close> fails exactly on the
  strings that are not an optional sign followed by decimal digits with a value in the
  range of \<^verbatim>\<open>int64\<close>, and its error is then a \<^verbatim>\<open>NumError\<close> naming the string; every other
  string, a negative number included, is compared with the bytes copied and gives
  \<^verbatim>\<open>io.ErrUnexpectedEOF\<close> when it differs.
\<close>

theorem DoRequest_parse_fault:
  fixes e :: "('q, 'r, 'w) env"
    and opts :: "('q config \<Rightarrow> 'q config) list"
    and req0 :: "'q Request"
    and r :: "'r Response"
  defines "conf \<equiv> apply_opts opts"
  defines "timer \<equiv> new_timer conf"
  defines "req \<equiv> modify_request conf req0"
  defines "cl \<equiv> Header_Get (ResponseHeader r) ''Content-Length''"
  assumes "NewRequest e verb urlString (wrap_requestBody timer conf requestBody) = Inr req0"
    and "client_Do e req = (Some r, None)"
    and "copy_body e timer conf
           \<lparr>src = Body r, dst = w,
              trace = (case timer of Some d \<Rightarrow> [AfterFunc d, TimerStop] | None \<Rightarrow> [])\<rparr> =
         Some (Return (nWritten, None), \<sigma>)"
    and "Method req \<noteq> MethodHead"
    and "cl \<noteq> []"
  shows "(\<forall>x pe. ParseInt cl = (x, Some pe) \<longrightarrow>
            DoRequest e verb urlString requestBody (Some w) opts =
              Some (Return (Some (r\<lparr>Body := src \<sigma>\<rparr>), Some pe),
                    Some (dst \<sigma>), trace \<sigma> @ [BodyClose, CtxCancel])) \<and>
         (int64_decimal cl = None \<longrightarrow>
            (\<exists>k. DoRequest e verb urlString requestBody (Some w) opts =
              Some (Return (Some (r\<lparr>Body := src \<sigma>\<rparr>), Some (NumError ''ParseInt'' cl k)),
                    Some (dst \<sigma>), trace \<sigma> @ [BodyClose, CtxCancel]))) \<and>
         (\<forall>v. int64_decimal cl = Some v \<longrightarrow>
            DoRequest e verb urlString requestBody (Some w) opts =
              Some (Return (Some (r\<lparr>Body := src \<sigma>\<rparr>),
                            if v = sint nWritten then None else Some ErrUnexpectedEOF),
                    Some (dst \<sigma>), trace \<sigma> @ [BodyClose, CtxCancel]))"
proof -
  note run = DoRequest_after_copy [OF assms(5-7) [unfolded conf_def timer_def req_def]]
  note chk = check_length_eq [where r = r and b = "src \<sigma>" and nWritten = nWritten,
      OF assms(8) [unfolded req_def conf_def]]
  have 1: "\<forall>x pe. ParseInt cl = (x, Some pe) \<longrightarrow>
            DoRequest e verb urlString requestBody (Some w) opts =
              Some (Return (Some (r\<lparr>Body := src \<sigma>\<rparr>), Some pe),
                    Some (dst \<sigma>), trace \<sigma> @ [BodyClose, CtxCancel])"
    using assms(9) unfolding run chk cl_def by simp
  have 2: "int64_decimal cl = None \<longrightarrow>
            (\<exists>k. DoRequest e verb urlString requestBody (Some w) opts =
              Some (Return (Some (r\<lparr>Body := src \<sigma>\<rparr>), Some (NumError ''ParseInt'' cl k)),
                    Some (dst \<sigma>), trace \<sigma> @ [BodyClose, CtxCancel]))"
  proof
    assume "int64_decimal cl = None"
    from ParseInt_invalid [OF this] obtain x k where
      "ParseInt cl = (x, Some (NumError ''ParseInt'' cl k))" by blast
    with 1 show "\<exists>k. DoRequest e verb urlString requestBody (Some w) opts =
              Some (Return (Some (r\<lparr>Body := src \<sigma>\<rparr>), Some (NumError ''ParseInt'' cl k)),
                    Some (dst \<sigma>), trace \<sigma> @ [BodyClose, CtxCancel])" by blast
  qed
  have 3: "DoRequest e verb urlString requestBody (Some w) opts =
              Some (Return (Some (r\<lparr>Body := src \<sigma>\<rparr>),
                            if v = sint nWritten then None else Some ErrUnexpectedEOF),
                    Some (dst \<sigma>), trace \<sigma> @ [BodyClose, CtxCancel])"
    if v: "int64_decimal cl = Some v" for v
  proof -
    from int64_decimal_range [OF v] have "sint (word_of_int v :: 64 word) = v"
      by (simp add: sint_word_of_int_64)
    then have eq: "(word_of_int v = nWritten) = (v = sint nWritten)" by auto
    from ParseInt_valid [OF v] assms(9) eq show ?thesis
      unfolding run chk cl_def by auto
  qed
  from 1 2 3 show ?thesis by blast
qed

theorem DoRequest_parse_fault_witness:
  "DoRequest (example_env [''Content-Length'' \<mapsto> [''12a'']]) ''GET'' ''http://example.org/'' None (Some 0)
      [Timeout 5] =
     Some (Return (Some \<lparr>StatusCode = 200, ResponseHeader = [''Content-Length'' \<mapsto> [''12a'']],
                          Body = []\<rparr>, Some (NumError ''ParseInt'' ''12a'' ErrSyntax)),
           Some 1500,
           [AfterFunc 5, TimerStop,
            TimerReset 5, SrcRead 65536, TimerStop, DstWrite 1000,
            TimerReset 5, SrcRead 65536, TimerStop, DstWrite 500,
            TimerReset 5, SrcRead 65536, TimerStop, BodyClose, CtxCancel]) \<and>
   int64_decimal ''-1'' = Some (- 1) \<and>
   DoRequest (example_env [''Content-Length'' \<mapsto> [''-1'']]) ''GET'' ''http://example.org/'' None (Some 0)
      [Timeout 5] =
     Some (Return (Some \<lparr>StatusCode = 200, ResponseHeader = [''Content-Length'' \<mapsto> [''-1'']],
                          Body = []\<rparr>, Some ErrUnexpectedEOF),
           Some 1500,
           [AfterFunc 5, TimerStop,
            TimerReset 5, SrcRead 65536, TimerStop, DstWrite 1000,
            TimerReset 5, SrcRead 65536, TimerStop, DstWrite 500,
            TimerReset 5, SrcRead 65536, TimerStop, BodyClose, CtxCancel])"
proof -
  let ?req = "\<lparr>Method = ''GET'', URL = ''http://example.org/'', RequestBody = None\<rparr> :: unit Request"
  let ?\<sigma> = "\<lparr>src = [], dst = 1500::nat,
             trace = [AfterFunc 5, TimerStop,
                     TimerReset 5, SrcRead 65536, TimerStop, DstWrite 1000,
                     TimerReset 5, SrcRead 65536, TimerStop, DstWrite 500,
                     TimerReset 5, SrcRead 65536, TimerStop]\<rparr> :: (io_result list, nat) world"
  note th = DoRequest_parse_fault
    [where opts = "[Timeout 5]" and verb = "''GET''" and urlString = "''http://example.org/''"
       and requestBody = None and ?req0.0 = ?req and w = 0 and nWritten = 1500 and \<sigma> = ?\<sigma>]
  from th [where e = "example_env [''Content-Length'' \<mapsto> [''12a'']]"
             and r = "\<lparr>StatusCode = 200, ResponseHeader = [''Content-Length'' \<mapsto> [''12a'']],
                        Body = [(1000, None), (500, None)]\<rparr>"]
  have a: "DoRequest (example_env [''Content-Length'' \<mapsto> [''12a'']]) ''GET'' ''http://example.org/''
      None (Some 0) [Timeout 5] =
     Some (Return (Some \<lparr>StatusCode = 200, ResponseHeader = [''Content-Length'' \<mapsto> [''12a'']],
                          Body = []\<rparr>, Some (NumError ''ParseInt'' ''12a'' ErrSyntax)),
           Some 1500, trace ?\<sigma> @ [BodyClose, CtxCancel])"
    by (simp add: example_simps ParseInt_12a)
  have s: "sint (1500 :: 64 word) = 1500" by simp
  from th [where e = "example_env [''Content-Length'' \<mapsto> [''-1'']]"
             and r = "\<lparr>StatusCode = 200, ResponseHeader = [''Content-Length'' \<mapsto> [''-1'']],
                        Body = [(1000, None), (500, None)]\<rparr>"]
  have b: "DoRequest (example_env [''Content-Length'' \<mapsto> [''-1'']]) ''GET'' ''http://example.org/''
      None (Some 0) [Timeout 5] =
     Some (Return (Some \<lparr>StatusCode = 200, ResponseHeader = [''Content-Length'' \<mapsto> [''-1'']],
                          Body = []\<rparr>, Some ErrUnexpectedEOF),
           Some 1500, trace ?\<sigma> @ [BodyClose, CtxCancel])"
    by (simp add: example_simps int64_decimal_minus_1 s)
  from a b int64_decimal_minus_1 show ?thesis by simp
qed

text \<open>
  The claim as it was stated, with a parse fault for every string that is not a
  non-negative number, fails: \<^verbatim>\<open>ParseInt\<close> reads \<^verbatim>\<open>-1\<close> as the number -1, which differs from
  the 1500 bytes copied, and the error is \<^verbatim>\<open>io.ErrUnexpectedEOF\<close>.
\<close>

theorem negative_Content_Length_counterexample:
  "DoRequest (example_env [''Content-Length'' \<mapsto> [''-1'']]) ''GET'' ''http://example.org/'' None (Some 0)
      [Timeout 5] =
     Some (Return (Some \<lparr>StatusCode = 200, ResponseHeader = [''Content-Length'' \<mapsto> [''-1'']],
                          Body = []\<rparr>, Some ErrUnexpectedEOF),
           Some 1500,
           [AfterFunc 5, TimerStop,
            TimerReset 5, SrcRead 65536, TimerStop, DstWrite 1000,
            TimerReset 5, SrcRead 65536, TimerStop, DstWrite 500,
            TimerReset 5, SrcRead 65536, TimerStop, BodyClose, CtxCancel])"
proof -
  let ?req = "\<lparr>Method = ''GET'', URL = ''http://example.org/'', RequestBody = None\<rparr> :: unit Request"
  let ?\<sigma> = "\<lparr>src = [], dst = 1500::nat,
             trace = [AfterFunc 5, TimerStop,
                     TimerReset 5, SrcRead 65536, TimerStop, DstWrite 1000,
                     TimerReset 5, SrcRead 65536, TimerStop, DstWrite 500,
                     TimerReset 5, SrcRead 65536, TimerStop]\<rparr> :: (io_result list, nat) world"
  let ?r = "\<lparr>StatusCode = 200, ResponseHeader = [''Content-Length'' \<mapsto> [''-1'']],
             Body = [(1000, None), (500, None)]\<rparr> :: io_result list Response"
  have m: "Method ?req \<noteq> MethodHead" by (simp add: MethodHead_def)
  have "(- 1 :: 64 word) \<noteq> 1500" by simp
  with DoRequest_after_copy
    [where e = "example_env [''Content-Length'' \<mapsto> [''-1'']]" and opts = "[Timeout 5]"
       and verb = "''GET''" and urlString = "''http://example.org/''" and requestBody = None
       and ?req0.0 = ?req and w = 0 and nWritten = 1500 and \<sigma> = ?\<sigma> and r = ?r]
    check_length_eq [where req = ?req and r = ?r and b = "[]" and nWritten = 1500, OF m]
  show ?thesis
    by (simp add: example_simps ParseInt_minus_1)
qed

text \<open>
  Claim C9. When the duration configured by the options is zero or negative, or no
  option sets one (it is then zero), \<^verbatim>\<open>DoRequest\<close> is the ordinary unbounded request: it
  creates no timer, hands the request body on as it is, and copies the response body
  with \<^verbatim>\<open>io.Copy\<close>.
\<close>

theorem DoRequest_without_timeout:
  assumes "timeout (apply_opts opts) \<le> 0"
  shows "DoRequest e method urlString requestBody responseBody opts =
         unbounded_request e method urlString requestBody responseBody
           (requestModFunc (apply_opts opts))"
proof -
  from assms have t: "new_timer (apply_opts opts) = None" by (simp add: new_timer_def)
  have w: "wrap_requestBody None (apply_opts opts) requestBody = map_option Bare requestBody"
    by (cases requestBody) (simp_all add: wrap_requestBody_def)
  show ?thesis
    unfolding DoRequest_def unbounded_request_def Let_def t w
    by (simp add: copy_body_def modify_request_def
          split: sum.splits prod.splits option.splits outcome.splits)
qed

theorem DoRequest_without_timeout_witness:
  "timeout (apply_opts ([] :: (unit config \<Rightarrow> unit config) list)) = 0 \<and>
   DoRequest (example_env [''Content-Length'' \<mapsto> [''1500'']]) ''POST'' ''http://example.org/''
      (Some ()) (Some 0) [] =
     Some (Return (Some \<lparr>StatusCode = 200, ResponseHeader = [''Content-Length'' \<mapsto> [''1500'']],
                          Body = []\<rparr>, None),
           Some 1500, [BodyClose, CtxCancel]) \<and>
   DoRequest (example_env [''Content-Length'' \<mapsto> [''1500'']]) ''POST'' ''http://example.org/''
      (Some ()) (Some 0) [Timeout 0] =
     Some (Return (Some \<lparr>StatusCode = 200, ResponseHeader = [''Content-Length'' \<mapsto> [''1500'']],
                          Body = []\<rparr>, None),
           Some 1500, [BodyClose, CtxCancel])"
proof -
  let ?e = "example_env [''Content-Length'' \<mapsto> [''1500'']]"
  have u: "unbounded_request ?e ''POST'' ''http://example.org/'' (Some ()) (Some 0) None =
     Some (Return (Some \<lparr>StatusCode = 200, ResponseHeader = [''Content-Length'' \<mapsto> [''1500'']],
                          Body = []\<rparr>, None),
           Some 1500, [BodyClose, CtxCancel])"
    by (simp add: unbounded_request_def example_env_def check_length_def Header_Get_def
          MethodHead_def ParseInt_1500)
  have t0: "timeout (apply_opts ([] :: (unit config \<Rightarrow> unit config) list)) \<le> 0"
    by (simp add: apply_opts_def)
  have t1: "timeout (apply_opts [Timeout 0 :: unit config \<Rightarrow> unit config]) \<le> 0"
    by (simp add: apply_opts_def Timeout_def)
  from DoRequest_without_timeout [OF t0, of ?e "''POST''" "''http://example.org/''" "Some ()" "Some 0"]
       DoRequest_without_timeout [OF t1, of ?e "''POST''" "''http://example.org/''" "Some ()" "Some 0"]
       u
  show ?thesis by (simp add: apply_opts_def Timeout_def)
qed

end
